theory Spec2Isabelle
  imports Main "HOL-Library.Multiset"
begin

section \<open>JSON values and the Python operations the application applies to them\<close>

text \<open>
  The application (\<^verbatim>\<open>app.py\<close>) is a client of a GraphQL API. Every value it inspects is
  the result of \<^verbatim>\<open>resp.json()\<close>: a Python \<^verbatim>\<open>None\<close>, \<^verbatim>\<open>bool\<close>, \<^verbatim>\<open>int\<close>, \<^verbatim>\<open>str\<close>,
  \<^verbatim>\<open>list\<close> or \<^verbatim>\<open>dict\<close> with string keys. A dict is an association list that is read
  with \<open>map_of\<close>; its keys are distinct, as those of a parsed object are (of a list that
  repeats a key, the first binding is the one read). Numbers are integers (the only
  numbers the queries select are element counts and page sizes).
\<close>

datatype json =
    JNull
  | JBool bool
  | JNum int
  | JStr string
  | JArr "json list"
  | JObj "(string \<times> json) list"

text \<open>
  The exceptions the modelled code can raise. \<^verbatim>\<open>execute_graphql\<close> raises
  \<^verbatim>\<open>RuntimeError(f"HTTP {status}: {text}")\<close> and \<^verbatim>\<open>RuntimeError(f"GraphQL errors: ...")\<close>;
  the two messages are kept as two constructors with the formatted values as arguments.
  \<open>RequestException\<close> stands for whatever \<^verbatim>\<open>requests.post\<close> raises (time-out, no
  connection), \<open>JSONDecodeError\<close> for \<^verbatim>\<open>resp.json()\<close> on a body that is not JSON,
  \<open>AttributeError\<close> for \<^verbatim>\<open>.get\<close> on a value that is not a dict, \<open>TypeError\<close> for
  iterating or comparing a value of the wrong type and for an unhashable dict key.
\<close>

datatype exn =
    RuntimeError_HTTP int string
  | RuntimeError_GraphQL json
  | RequestException string
  | JSONDecodeError
  | AttributeError
  | TypeError
  | UserError exn

definition bind_exn :: "exn + 'a \<Rightarrow> ('a \<Rightarrow> exn + 'b) \<Rightarrow> exn + 'b" where
  "bind_exn m f = (case m of Inl e \<Rightarrow> Inl e | Inr x \<Rightarrow> f x)"

text \<open>Python truthiness: what \<^verbatim>\<open>not x\<close>, \<^verbatim>\<open>x or y\<close> and \<^verbatim>\<open>if x:\<close> test.\<close>

fun truthy :: "json \<Rightarrow> bool" where
  "truthy JNull = False"
| "truthy (JBool b) = b"
| "truthy (JNum n) = (n \<noteq> 0)"
| "truthy (JStr s) = (s \<noteq> [])"
| "truthy (JArr xs) = (xs \<noteq> [])"
| "truthy (JObj kvs) = (kvs \<noteq> [])"

definition py_or :: "json \<Rightarrow> json \<Rightarrow> json" where
  "py_or a b = (if truthy a then a else b)"

text \<open>\<^verbatim>\<open>d.get(key, default)\<close>: only a dict has the method.\<close>

fun py_get :: "json \<Rightarrow> string \<Rightarrow> json \<Rightarrow> exn + json" where
  "py_get (JObj kvs) k d = Inr (case map_of kvs k of Some v \<Rightarrow> v | None \<Rightarrow> d)"
| "py_get _ k d = Inl AttributeError"

text \<open>
  \<^verbatim>\<open>for x in v\<close>: a list yields its items, a dict its keys, a string its characters;
  anything else is not iterable.
\<close>

fun py_iter :: "json \<Rightarrow> exn + json list" where
  "py_iter (JArr xs) = Inr xs"
| "py_iter (JObj kvs) = Inr (map (\<lambda>kv. JStr (fst kv)) kvs)"
| "py_iter (JStr s) = Inr (map (\<lambda>c. JStr [c]) s)"
| "py_iter _ = Inl TypeError"

text \<open>
  Python's \<^verbatim>\<open>==\<close> on these values: \<^verbatim>\<open>True == 1\<close> and \<^verbatim>\<open>False == 0\<close>, lists are
  compared item by item, dicts key by key whatever the order of their keys, values of
  different kinds are unequal.
\<close>

fun py_eq :: "json \<Rightarrow> json \<Rightarrow> bool" where
  "py_eq JNull JNull = True"
| "py_eq (JBool a) (JBool b) = (a = b)"
| "py_eq (JBool a) (JNum n) = (n = (if a then 1 else 0))"
| "py_eq (JNum n) (JBool a) = (n = (if a then 1 else 0))"
| "py_eq (JNum m) (JNum n) = (m = n)"
| "py_eq (JStr s) (JStr t) = (s = t)"
| "py_eq (JArr xs) (JArr ys) = list_all2 py_eq xs ys"
| "py_eq (JObj kvs) (JObj kws) =
     (set (map fst kvs) = set (map fst kws) \<and>
      list_all (\<lambda>kv. case map_of kws (fst kv) of
                        None \<Rightarrow> False
                      | Some w \<Rightarrow> py_eq (snd kv) w) kvs)"
| "py_eq _ _ = False"

text \<open>
  An unhashable value (a list or a dict) cannot be a dict key:
  \<^verbatim>\<open>{external_id: color_hex}\<close> raises \<^verbatim>\<open>TypeError\<close> for it.
\<close>

fun hashable :: "json \<Rightarrow> bool" where
  "hashable (JArr xs) = False"
| "hashable (JObj kvs) = False"
| "hashable _ = True"

section \<open>The GraphQL client helper\<close>

text \<open>
  What \<^verbatim>\<open>requests.post\<close> gives back: the status code, the body as text, and the body
  as \<^verbatim>\<open>resp.json()\<close> parses it (\<open>None\<close> when it is not JSON). A reply is that, or the
  exception \<^verbatim>\<open>requests.post\<close> raised.
\<close>

record http_response =
  status_code :: int
  body_text :: string
  json_body :: "json option"

type_synonym reply = "exn + http_response"

text \<open>The three query documents of the application, by their operation names.\<close>

datatype gql_query = FamilyInstances | UsedCategories | CategoryElements

text \<open>
  The request \<^verbatim>\<open>execute_graphql\<close> posts: the bearer token and the region go into the
  headers, the query and \<^verbatim>\<open>variables or {}\<close> into the payload.
\<close>

record request =
  authorization :: string
  region_header :: string
  query :: gql_query
  variables :: json

definition graphql_request :: "gql_query \<Rightarrow> string \<Rightarrow> string \<Rightarrow> json \<Rightarrow> request" where
  "graphql_request q token region vars =
     \<lparr>authorization = ''Bearer '' @ token, region_header = region,
      query = q, variables = py_or vars (JObj [])\<rparr>"

text \<open>
  \<^verbatim>\<open>execute_graphql\<close>, from the reply on (lines 34 to 41 of the source): the status
  check, \<^verbatim>\<open>resp.json()\<close>, the check of \<^verbatim>\<open>body.get("errors")\<close>, and
  \<^verbatim>\<open>body.get("data", {})\<close>.
\<close>

definition execute_graphql :: "reply \<Rightarrow> exn + json" where
  "execute_graphql r =
     (case r of
        Inl e \<Rightarrow> Inl e
      | Inr resp \<Rightarrow>
          if status_code resp \<noteq> 200
          then Inl (RuntimeError_HTTP (status_code resp) (body_text resp))
          else (case json_body resp of
                  None \<Rightarrow> Inl JSONDecodeError
                | Some body \<Rightarrow>
                    bind_exn (py_get body ''errors'' JNull) (\<lambda>errors.
                      if truthy errors then Inl (RuntimeError_GraphQL errors)
                      else py_get body ''data'' (JObj []))))"

section \<open>Category counts and reconciliation\<close>

text \<open>
  What the views get from the hosting framework before they query the API: the OAuth2
  token, the region and the element group id of the selected file. The steps that get
  them (and the \<^verbatim>\<open>vkt.UserError\<close> of a view when no file is selected) come before the
  first query and are the framework's; the views are modelled from there on.
\<close>

record connection =
  token :: string
  region :: string
  group_id :: string

text \<open>
  A \<^verbatim>\<open>vkt.Color\<close> is an object with its components and its \<^verbatim>\<open>hex\<close> attribute; a row of
  \<^verbatim>\<open>params.required_categories\<close> has a category (an option of the \<^verbatim>\<open>OptionField\<close>) and
  a color.
\<close>

record vkt_color =
  rgb :: "nat \<times> nat \<times> nat"
  hex :: string

record required_category =
  category :: string
  color :: vkt_color

text \<open>The master list of categories, the same literal in the three reporting views.\<close>

definition all_categories :: "string list" where
  "all_categories =
     [''Structural Framing'', ''Structural Columns'', ''Structural Foundations'',
      ''Walls'', ''Floors'', ''Roofs'', ''Ceilings'', ''Doors'', ''Windows'', ''Stairs'',
      ''Railings'', ''Curtain Panels'', ''Curtain Wall Mullions'', ''Furniture'',
      ''Mechanical Equipment'', ''Plumbing Fixtures'', ''Lighting Fixtures'',
      ''Electrical Equipment'', ''Ducts'', ''Pipes'']"

text \<open>
  \<^verbatim>\<open>model_category_counts\<close> is a Python dict. Its keys are the values the API reports:
  a key is stored under its hash class (\<^verbatim>\<open>True\<close> and \<^verbatim>\<open>1\<close> are one key), and a list or
  a dict is no key at all.
\<close>

type_synonym py_dict = "json \<rightharpoonup> json"

fun dict_key :: "json \<Rightarrow> json" where
  "dict_key (JBool b) = JNum (if b then 1 else 0)"
| "dict_key k = k"

definition py_setitem :: "py_dict \<Rightarrow> json \<Rightarrow> json \<Rightarrow> exn + py_dict" where
  "py_setitem m k v = (if hashable k then Inr (m(dict_key k \<mapsto> v)) else Inl TypeError)"

definition dict_get :: "py_dict \<Rightarrow> json \<Rightarrow> json \<Rightarrow> json" where
  "dict_get m k d = (case m (dict_key k) of Some v \<Rightarrow> v | None \<Rightarrow> d)"

text \<open>The inner loop \<^verbatim>\<open>for v in values\<close> (lines 377 to 381, 803 to 807, 1018 to 1022).\<close>

fun count_values :: "json list \<Rightarrow> py_dict \<Rightarrow> exn + py_dict" where
  "count_values [] m = Inr m"
| "count_values (v # vs) m =
     bind_exn (py_get v ''value'' (JStr [])) (\<lambda>category_name.
     bind_exn (py_get v ''count'' (JNum 0)) (\<lambda>element_count.
       if truthy category_name
       then bind_exn (py_setitem m category_name element_count) (count_values vs)
       else count_values vs m))"

text \<open>The outer loop \<^verbatim>\<open>for r in results_list\<close>.\<close>

fun count_results :: "json list \<Rightarrow> py_dict \<Rightarrow> exn + py_dict" where
  "count_results [] m = Inr m"
| "count_results (r # rs) m =
     bind_exn (py_get r ''values'' JNull) (\<lambda>vals.
     bind_exn (py_iter (py_or vals (JArr []))) (\<lambda>values.
     bind_exn (count_values values m) (count_results rs)))"

text \<open>From \<^verbatim>\<open>data\<close> to the dict (lines 370 to 381).\<close>

definition model_category_counts :: "json \<Rightarrow> exn + py_dict" where
  "model_category_counts data =
     bind_exn (py_get data ''distinctPropertyValuesInElementGroupByName'' JNull) (\<lambda>b.
     bind_exn (py_get (py_or b (JObj [])) ''results'' JNull) (\<lambda>r.
     bind_exn (py_iter (py_or r (JArr []))) (\<lambda>results_list.
       count_results results_list Map.empty)))"

text \<open>
  The \<^verbatim>\<open>try\<close> block of the three views: any exception of the query or of the loops
  becomes a \<^verbatim>\<open>vkt.UserError\<close>.
\<close>

definition fetch_category_counts :: "reply \<Rightarrow> exn + py_dict" where
  "fetch_category_counts r =
     (case bind_exn (execute_graphql r) model_category_counts of
        Inl e \<Rightarrow> Inl (UserError e)
      | Inr m \<Rightarrow> Inr m)"

definition used_categories_request :: "connection \<Rightarrow> request" where
  "used_categories_request conn =
     graphql_request UsedCategories (token conn) (region conn)
       (JObj [(''elementGroupId'', JStr (group_id conn)), (''limit'', JNum 1000)])"

text \<open>\<^verbatim>\<open>element_count > 0\<close>: Python 3 compares numbers only.\<close>

fun py_gt_zero :: "json \<Rightarrow> exn + bool" where
  "py_gt_zero (JNum n) = Inr (0 < n)"
| "py_gt_zero (JBool b) = Inr b"
| "py_gt_zero _ = Inl TypeError"

datatype status_symbol = CheckMark | CrossMark | WarningSign | CircleMark

record summary_row =
  row_category :: string
  row_symbol :: status_symbol
  row_color :: "nat \<times> nat \<times> nat"
  row_count :: json
  row_text :: string

text \<open>One pass of the loop of \<^verbatim>\<open>view_category_summary\<close> (lines 390 to 421).\<close>

definition summary_row_of :: "string set \<Rightarrow> py_dict \<Rightarrow> string \<Rightarrow> exn + summary_row" where
  "summary_row_of required_categories counts category_name =
     (let element_count = dict_get counts (JStr category_name) (JNum 0) in
      bind_exn (py_gt_zero element_count) (\<lambda>in_model.
        let in_contract = (category_name \<in> required_categories) in
        Inr (if in_contract \<and> in_model then
               \<lparr>row_category = category_name, row_symbol = CheckMark, row_color = (0, 128, 0),
                row_count = element_count, row_text = ''Present in contract and model''\<rparr>
             else if in_contract \<and> \<not> in_model then
               \<lparr>row_category = category_name, row_symbol = CrossMark, row_color = (255, 165, 0),
                row_count = element_count, row_text = ''In contract but not in model''\<rparr>
             else if \<not> in_contract \<and> in_model then
               \<lparr>row_category = category_name, row_symbol = CrossMark, row_color = (255, 0, 0),
                row_count = element_count, row_text = ''Missing in the contract''\<rparr>
             else
               \<lparr>row_category = category_name, row_symbol = CrossMark, row_color = (128, 128, 128),
                row_count = element_count, row_text = ''Not in contract, not in model''\<rparr>)))"

fun summary_rows :: "string set \<Rightarrow> py_dict \<Rightarrow> string list \<Rightarrow> exn + summary_row list" where
  "summary_rows required_categories counts [] = Inr []"
| "summary_rows required_categories counts (c # cs) =
     bind_exn (summary_row_of required_categories counts c) (\<lambda>row.
     bind_exn (summary_rows required_categories counts cs) (\<lambda>rows. Inr (row # rows)))"

text \<open>
  \<^verbatim>\<open>view_category_summary\<close> from the parameters and the API's replies to the requests it
  sent and its table rows (or the exception it raised). It reads the first reply only.
\<close>

definition view_category_summary ::
  "connection \<Rightarrow> (nat \<Rightarrow> reply) \<Rightarrow> required_category list
     \<Rightarrow> request list \<times> (exn + summary_row list)" where
  "view_category_summary conn replies rows =
     (let required_categories = set (map category rows) in
      ([used_categories_request conn],
       bind_exn (fetch_category_counts (replies 0)) (\<lambda>counts.
         summary_rows required_categories counts all_categories)))"

datatype data_status = SUCCESS | ERROR | WARNING | INFO

record data_item =
  item_label :: string
  item_value :: json
  item_status :: data_status
  item_message :: "status_symbol option \<times> string"

record data_groups =
  present_group :: "data_item list"
  missing_from_model_group :: "data_item list"
  missing_from_contract_group :: "data_item list"
  not_applicable_group :: "data_item list"

text \<open>The loop of \<^verbatim>\<open>view_category_data\<close> over the master list (lines 847 to 899).\<close>

fun group_categories :: "string set \<Rightarrow> py_dict \<Rightarrow> string list \<Rightarrow> data_groups \<Rightarrow> exn + data_groups" where
  "group_categories required_categories counts [] g = Inr g"
| "group_categories required_categories counts (category_name # cs) g =
     (let element_count = dict_get counts (JStr category_name) (JNum 0) in
      bind_exn (py_gt_zero element_count) (\<lambda>in_model.
        let in_contract = (category_name \<in> required_categories) in
        group_categories required_categories counts cs
          (if in_contract \<and> in_model then
             g\<lparr>present_group := present_group g @
                 [\<lparr>item_label = category_name, item_value = element_count, item_status = SUCCESS,
                   item_message = (Some CheckMark, ''Present in contract and model'')\<rparr>]\<rparr>
           else if in_contract \<and> \<not> in_model then
             g\<lparr>missing_from_model_group := missing_from_model_group g @
                 [\<lparr>item_label = category_name, item_value = JStr ''0'', item_status = ERROR,
                   item_message = (Some CrossMark, ''In contract but not in model'')\<rparr>]\<rparr>
           else if \<not> in_contract \<and> in_model then
             g\<lparr>missing_from_contract_group := missing_from_contract_group g @
                 [\<lparr>item_label = category_name, item_value = element_count, item_status = WARNING,
                   item_message = (Some CrossMark, ''Missing in the contract'')\<rparr>]\<rparr>
           else
             g\<lparr>not_applicable_group := not_applicable_group g @
                 [\<lparr>item_label = category_name, item_value = JStr ''0'', item_status = INFO,
                   item_message = (None, ''Not in contract, not in model'')\<rparr>]\<rparr>)))"

text \<open>\<^verbatim>\<open>sum(1 for cat in cats if model_category_counts.get(cat, 0) > 0)\<close>.\<close>

fun count_in_model :: "py_dict \<Rightarrow> string list \<Rightarrow> exn + nat" where
  "count_in_model counts [] = Inr 0"
| "count_in_model counts (cat # cats) =
     bind_exn (py_gt_zero (dict_get counts (JStr cat) (JNum 0))) (\<lambda>b.
     bind_exn (count_in_model counts cats) (\<lambda>n. Inr (if b then Suc n else n)))"

record data_result =
  total_categories :: nat
  categories_in_model :: nat
  categories_in_contract :: nat
  categories_matched :: nat
  matched_status :: data_status
  groups :: data_groups
  main_group :: "(status_symbol \<times> string \<times> data_item list) list"

text \<open>
  \<^verbatim>\<open>view_category_data\<close>. The set \<^verbatim>\<open>required_categories\<close> is iterated once, for
  \<^verbatim>\<open>categories_matched\<close>; a Python set has no fixed order, and neither the sum nor the
  exception depends on it, so the model iterates the names without duplicates in the order
  of the rows.
\<close>

definition view_category_data ::
  "connection \<Rightarrow> (nat \<Rightarrow> reply) \<Rightarrow> required_category list
     \<Rightarrow> request list \<times> (exn + data_result)" where
  "view_category_data conn replies rows =
     (let required_categories = set (map category rows) in
      ([used_categories_request conn],
       bind_exn (fetch_category_counts (replies 0)) (\<lambda>counts.
       bind_exn (count_in_model counts all_categories) (\<lambda>in_model.
       bind_exn (count_in_model counts (remdups (map category rows))) (\<lambda>matched.
       bind_exn (group_categories required_categories counts all_categories
                   \<lparr>present_group = [], missing_from_model_group = [],
                    missing_from_contract_group = [], not_applicable_group = []\<rparr>) (\<lambda>g.
         Inr \<lparr>total_categories = length all_categories,
              categories_in_model = in_model,
              categories_in_contract = card required_categories,
              categories_matched = matched,
              matched_status = (if matched = card required_categories then SUCCESS else WARNING),
              groups = g,
              main_group = filter (\<lambda>grp. snd (snd grp) \<noteq> [])
                [(CheckMark, ''Present (Contract & Model)'', present_group g),
                 (CrossMark, ''Missing from Model'', missing_from_model_group g),
                 (WarningSign, ''Missing from Contract'', missing_from_contract_group g),
                 (CircleMark, ''Not Applicable'', not_applicable_group g)]\<rparr>))))))"

text \<open>
  The table of \<^verbatim>\<open>download_category_report\<close> (lines 1076 to 1106): category, symbol,
  color and text, where the text of a present category is
  \<^verbatim>\<open>f"Present ({element_count} elements)"\<close>.
\<close>

datatype report_text = PresentElements json | PlainText string

record report_row =
  report_category :: string
  report_symbol :: status_symbol
  report_text :: report_text
  report_color :: "nat \<times> nat \<times> nat"

fun report_rows :: "string set \<Rightarrow> py_dict \<Rightarrow> string list \<Rightarrow> exn + report_row list" where
  "report_rows required_categories counts [] = Inr []"
| "report_rows required_categories counts (category_name # cs) =
     (let element_count = dict_get counts (JStr category_name) (JNum 0) in
      bind_exn (py_gt_zero element_count) (\<lambda>in_model.
        let in_contract = (category_name \<in> required_categories);
            row = (if in_contract \<and> in_model then
                     \<lparr>report_category = category_name, report_symbol = CheckMark,
                      report_text = PresentElements element_count, report_color = (0, 128, 0)\<rparr>
                   else if in_contract \<and> \<not> in_model then
                     \<lparr>report_category = category_name, report_symbol = CrossMark,
                      report_text = PlainText ''In contract but not in model'',
                      report_color = (255, 165, 0)\<rparr>
                   else if \<not> in_contract \<and> in_model then
                     \<lparr>report_category = category_name, report_symbol = CrossMark,
                      report_text = PlainText ''Missing in the contract'',
                      report_color = (255, 0, 0)\<rparr>
                   else
                     \<lparr>report_category = category_name, report_symbol = CrossMark,
                      report_text = PlainText ''Not in contract, not in model'',
                      report_color = (128, 128, 128)\<rparr>)
        in bind_exn (report_rows required_categories counts cs) (\<lambda>rows. Inr (row # rows))))"

definition download_category_report ::
  "connection \<Rightarrow> (nat \<Rightarrow> reply) \<Rightarrow> required_category list
     \<Rightarrow> request list \<times> (exn + report_row list)" where
  "download_category_report conn replies rows =
     (let required_categories = set (map category rows) in
      ([used_categories_request conn],
       bind_exn (fetch_category_counts (replies 0)) (\<lambda>counts.
         report_rows required_categories counts all_categories)))"

section \<open>The pagination loops\<close>

text \<open>
  The API is the sequence of its replies: \<open>replies n\<close> answers the \<open>n\<close>-th request of a
  view (from 0). The client is deterministic, so every behaviour of a server, whatever
  state it keeps, is one such sequence. The requests a view sends are kept in \<open>sent\<close>;
  the next reply is \<open>replies (length (sent s))\<close>.
\<close>

record session =
  sent :: "request list"

text \<open>The RSQL filter of a category (lines 201 and 499); \<open>CHR 0x27\<close> is the quote.\<close>

definition rsql_filter :: "string \<Rightarrow> string" where
  "rsql_filter category_name =
     ''property.name.category=='' @ [CHR 0x27] @ category_name @ [CHR 0x27] @ '' and '' @
     [CHR 0x27] @ ''property.name.Element Context'' @ [CHR 0x27] @ ''==Instance''"

definition limit :: int where
  "limit = 100"

text \<open>The variables of a page request (lines 208 to 214 and 506 to 512).\<close>

definition page_variables :: "connection \<Rightarrow> string \<Rightarrow> json \<Rightarrow> json" where
  "page_variables conn category_name cursor =
     JObj [(''elementGroupId'', JStr (group_id conn)),
           (''rsqlFilter'', JStr (rsql_filter category_name)),
           (''pagination'',
              if \<not> truthy cursor then JObj [(''limit'', JNum limit)]
              else JObj [(''cursor'', cursor), (''limit'', JNum limit)])]"

definition page_request :: "gql_query \<Rightarrow> connection \<Rightarrow> string \<Rightarrow> json \<Rightarrow> request" where
  "page_request q conn category_name cursor =
     graphql_request q (token conn) (region conn) (page_variables conn category_name cursor)"

text \<open>
  How one pass of a \<^verbatim>\<open>while True\<close> loop ends: with an exception, with \<^verbatim>\<open>break\<close>, or at
  the bottom of the body with the cursor of the next pass.
\<close>

datatype outcome = Raise exn | Break | Continue json

text \<open>
  \<^verbatim>\<open>block\<close> and the items of \<^verbatim>\<open>page_results\<close> (lines 217 to 218 and 516 to 517, with the
  start of the \<^verbatim>\<open>for\<close> loop), and \<^verbatim>\<open>new_cursor\<close> (lines 249 to 250 and 531 to 532).
\<close>

definition page_block :: "json \<Rightarrow> exn + json" where
  "page_block data =
     bind_exn (py_get data ''elementsByElementGroup'' (JObj [])) (\<lambda>b. Inr (py_or b (JObj [])))"

definition page_elements :: "json \<Rightarrow> exn + json list" where
  "page_elements block =
     bind_exn (py_get block ''results'' (JArr [])) (\<lambda>r. py_iter (py_or r (JArr [])))"

definition new_cursor_of :: "json \<Rightarrow> exn + json" where
  "new_cursor_of block =
     bind_exn (py_get block ''pagination'' (JObj [])) (\<lambda>p.
       py_get (py_or p (JObj [])) ''cursor'' JNull)"

text \<open>
  The test of lines 253 and 535:
  \<^verbatim>\<open>not new_cursor or new_cursor == cursor or len(page_results) == 0\<close>; the length is
  that of the items the \<^verbatim>\<open>for\<close> loop has just gone through.
\<close>

definition stop_condition :: "json \<Rightarrow> json \<Rightarrow> json list \<Rightarrow> bool" where
  "stop_condition new_cursor cursor elements \<longleftrightarrow>
     \<not> truthy new_cursor \<or> py_eq new_cursor cursor \<or> length elements = 0"

subsection \<open>Family instances\<close>

record family_instance =
  inst_category :: string
  family_name :: json
  type_name :: json
  element_name :: json

text \<open>The loop \<^verbatim>\<open>for prop in properties\<close> (lines 229 to 236).\<close>

fun fi_properties :: "json list \<Rightarrow> json \<times> json \<Rightarrow> exn + json \<times> json" where
  "fi_properties [] names = Inr names"
| "fi_properties (prop # props) names =
     bind_exn (py_get prop ''name'' (JStr [])) (\<lambda>prop_name.
     bind_exn (py_get prop ''value'' (JStr [])) (\<lambda>prop_value.
       if py_eq prop_name (JStr ''Family Name'')
       then fi_properties props (if truthy prop_value then prop_value else JStr ''Unknown'', snd names)
       else if py_eq prop_name (JStr ''Type Name'')
       then fi_properties props (fst names, if truthy prop_value then prop_value else JStr ''Unknown'')
       else fi_properties props names))"

text \<open>The record of one element (lines 222 to 246).\<close>

definition fi_element :: "string \<Rightarrow> json \<Rightarrow> exn + family_instance" where
  "fi_element category_name element =
     bind_exn (py_get element ''name'' (JStr ''Unknown'')) (\<lambda>name.
     bind_exn (py_get element ''properties'' (JObj [])) (\<lambda>p.
     bind_exn (py_get p ''results'' (JArr [])) (\<lambda>r.
     bind_exn (py_iter (py_or r (JArr []))) (\<lambda>properties.
     bind_exn (fi_properties properties (JStr ''Unknown'', JStr ''Unknown'')) (\<lambda>names.
       Inr \<lparr>inst_category = category_name, family_name = fst names,
            type_name = snd names, element_name = name\<rparr>)))))"

text \<open>The loop \<^verbatim>\<open>for element in page_results\<close> with its \<^verbatim>\<open>append\<close>.\<close>

fun fi_page :: "string \<Rightarrow> json list \<Rightarrow> family_instance list \<Rightarrow> exn + family_instance list" where
  "fi_page category_name [] acc = Inr acc"
| "fi_page category_name (element # elements) acc =
     bind_exn (fi_element category_name element) (\<lambda>inst.
       fi_page category_name elements (acc @ [inst]))"

record fi_state = session +
  all_instances :: "family_instance list"

text \<open>
  The body of the \<^verbatim>\<open>while\<close> loop from the reply on (lines 216 to 256). An exception
  leaves the view, and with it the list, so the list is that of the start of the pass
  then.
\<close>

definition fi_body :: "string \<Rightarrow> json \<Rightarrow> family_instance list \<Rightarrow> reply
                         \<Rightarrow> exn + family_instance list \<times> outcome" where
  "fi_body category_name cursor acc r =
     bind_exn (execute_graphql r) (\<lambda>data.
     bind_exn (page_block data) (\<lambda>block.
     bind_exn (page_elements block) (\<lambda>elements.
     bind_exn (fi_page category_name elements acc) (\<lambda>acc'.
     bind_exn (new_cursor_of block) (\<lambda>new_cursor.
       Inr (acc', if stop_condition new_cursor cursor elements then Break
                  else Continue new_cursor))))))"

definition fi_iteration ::
  "(nat \<Rightarrow> reply) \<Rightarrow> connection \<Rightarrow> string \<Rightarrow> json \<Rightarrow> fi_state \<Rightarrow> fi_state \<times> outcome" where
  "fi_iteration replies conn category_name cursor s =
     (let req = page_request FamilyInstances conn category_name cursor;
          s1 = s\<lparr>sent := sent s @ [req]\<rparr>
      in case fi_body category_name cursor (all_instances s) (replies (length (sent s))) of
           Inl e \<Rightarrow> (s1, Raise e)
         | Inr (acc', out) \<Rightarrow> (s1\<lparr>all_instances := acc'\<rparr>, out))"

text \<open>
  The skeleton of both loops, \<^verbatim>\<open>while True: ...; if ...: break; cursor = new_cursor\<close>.
  The result is the state at the exit and the exception that left the loop, if any;
  \<open>None\<close> is a loop that never exits.
\<close>

partial_function (option) paginate ::
  "(json \<Rightarrow> 's \<Rightarrow> 's \<times> outcome) \<Rightarrow> json \<Rightarrow> 's \<Rightarrow> ('s \<times> exn option) option" where
  "paginate body cursor s =
     (case body cursor s of
        (s', Raise e) \<Rightarrow> Some (s', Some e)
      | (s', Break) \<Rightarrow> Some (s', None)
      | (s', Continue new_cursor) \<Rightarrow> paginate body new_cursor s')"

text \<open>
  The loop unrolled: the state and the outcome after \<open>n\<close> passes, or at the pass that
  left the loop if that came earlier. \<open>Continue c\<close> says that the loop is about to start
  its next pass with the cursor \<open>c\<close>.
\<close>

fun passes :: "nat \<Rightarrow> (json \<Rightarrow> 's \<Rightarrow> 's \<times> outcome) \<Rightarrow> json \<Rightarrow> 's \<Rightarrow> 's \<times> outcome" where
  "passes 0 body cursor s = (s, Continue cursor)"
| "passes (Suc n) body cursor s =
     (case body cursor s of
        (s', Continue new_cursor) \<Rightarrow> passes n body new_cursor s'
      | (s', out) \<Rightarrow> (s', out))"

fun left_with :: "outcome \<Rightarrow> exn option" where
  "left_with (Raise e) = Some e"
| "left_with out = None"

fun continues :: "outcome \<Rightarrow> bool" where
  "continues (Continue c) = True"
| "continues out = False"

definition fi_loop ::
  "(nat \<Rightarrow> reply) \<Rightarrow> connection \<Rightarrow> string \<Rightarrow> fi_state \<Rightarrow> (fi_state \<times> exn option) option" where
  "fi_loop replies conn category_name s =
     paginate (fi_iteration replies conn category_name) JNull s"

text \<open>The loop \<^verbatim>\<open>for category in categories\<close> of \<^verbatim>\<open>view_family_instances\<close>.\<close>

fun fi_categories ::
  "(nat \<Rightarrow> reply) \<Rightarrow> connection \<Rightarrow> string list \<Rightarrow> fi_state \<Rightarrow> (fi_state \<times> exn option) option" where
  "fi_categories replies conn [] s = Some (s, None)"
| "fi_categories replies conn (c # cs) s =
     (case fi_loop replies conn c s of
        None \<Rightarrow> None
      | Some (s', Some e) \<Rightarrow> Some (s', Some e)
      | Some (s', None) \<Rightarrow> fi_categories replies conn cs s')"

definition categories :: "string list" where
  "categories =
     [''Structural Framing'', ''Structural Columns'', ''Walls'', ''Floors'', ''Doors'',
      ''Windows'']"

datatype table_result = TableResult "json list list" "string list"

text \<open>
  \<^verbatim>\<open>view_family_instances\<close> from the replies on: the requests it sent and its table, or
  the exception it raised; \<open>None\<close> when it never returns.
\<close>

definition view_family_instances ::
  "connection \<Rightarrow> (nat \<Rightarrow> reply) \<Rightarrow> (request list \<times> (exn + table_result)) option" where
  "view_family_instances conn replies =
     (case fi_categories replies conn categories \<lparr>sent = [], all_instances = []\<rparr> of
        None \<Rightarrow> None
      | Some (s, Some e) \<Rightarrow> Some (sent s, Inl e)
      | Some (s, None) \<Rightarrow>
          Some (sent s,
            Inr (if all_instances s = []
                 then TableResult [[JStr ''No family instances found in the selected categories'']]
                        [''Message'']
                 else TableResult
                        (map (\<lambda>i. [JStr (inst_category i), family_name i, type_name i,
                                    element_name i]) (all_instances s))
                        [''Category'', ''Family Name'', ''Type Name'', ''Element Name''])))"

subsection \<open>Colored categories\<close>

text \<open>
  The external id of an element (lines 522 to 523), and the loop over the elements of a
  page (lines 520 to 528). An exception in the loop is caught by the \<^verbatim>\<open>except\<close> of the
  pass, so the entries appended before it stay in the list: the loop returns the list
  and the exception, if any.
\<close>

definition cc_external_id :: "json \<Rightarrow> exn + json" where
  "cc_external_id element =
     bind_exn (py_get element ''alternativeIdentifiers'' (JObj [])) (\<lambda>alt_ids.
       py_get alt_ids ''externalElementId'' JNull)"

fun cc_page :: "string \<Rightarrow> json list \<Rightarrow> (json \<times> string) list
                  \<Rightarrow> (json \<times> string) list \<times> exn option" where
  "cc_page color_hex [] acc = (acc, None)"
| "cc_page color_hex (element # elements) acc =
     (case cc_external_id element of
        Inl e \<Rightarrow> (acc, Some e)
      | Inr external_id \<Rightarrow>
          if truthy external_id
          then (if hashable external_id
                then cc_page color_hex elements (acc @ [(external_id, color_hex)])
                else (acc, Some TypeError))
          else cc_page color_hex elements acc)"

record cc_state = session +
  external_ids_with_colors :: "(json \<times> string) list"
  warnings :: "(string \<times> exn) list"

text \<open>The \<^verbatim>\<open>try\<close> block of a pass (lines 515 to 538) from the reply on.\<close>

definition cc_try :: "string \<Rightarrow> json \<Rightarrow> (json \<times> string) list \<Rightarrow> reply
                        \<Rightarrow> (json \<times> string) list \<times> outcome" where
  "cc_try color_hex cursor acc r =
     (case bind_exn (execute_graphql r) (\<lambda>data.
           bind_exn (page_block data) (\<lambda>block.
           bind_exn (page_elements block) (\<lambda>elements. Inr (block, elements)))) of
        Inl e \<Rightarrow> (acc, Raise e)
      | Inr (block, elements) \<Rightarrow>
          (case cc_page color_hex elements acc of
             (acc', Some e) \<Rightarrow> (acc', Raise e)
           | (acc', None) \<Rightarrow>
               (case new_cursor_of block of
                  Inl e \<Rightarrow> (acc', Raise e)
                | Inr new_cursor \<Rightarrow>
                    (acc', if stop_condition new_cursor cursor elements then Break
                           else Continue new_cursor))))"

text \<open>
  A pass of the loop: the request, the \<^verbatim>\<open>try\<close> block, and the handler of lines 540 to
  544, which warns and breaks.
\<close>

definition cc_iteration ::
  "(nat \<Rightarrow> reply) \<Rightarrow> connection \<Rightarrow> required_category \<Rightarrow> json \<Rightarrow> cc_state
     \<Rightarrow> cc_state \<times> outcome" where
  "cc_iteration replies conn row cursor s =
     (let req = page_request CategoryElements conn (category row) cursor;
          s1 = s\<lparr>sent := sent s @ [req]\<rparr>
      in case cc_try (hex (color row)) cursor (external_ids_with_colors s)
                (replies (length (sent s))) of
           (acc', Raise e) \<Rightarrow>
             (s1\<lparr>external_ids_with_colors := acc',
                 warnings := warnings s @ [(category row, e)]\<rparr>, Break)
         | (acc', out) \<Rightarrow> (s1\<lparr>external_ids_with_colors := acc'\<rparr>, out))"

definition cc_loop ::
  "(nat \<Rightarrow> reply) \<Rightarrow> connection \<Rightarrow> required_category \<Rightarrow> cc_state
     \<Rightarrow> (cc_state \<times> exn option) option" where
  "cc_loop replies conn row s = paginate (cc_iteration replies conn row) JNull s"

text \<open>The loop \<^verbatim>\<open>for row in params.required_categories\<close> (lines 469 to 544).\<close>

fun cc_rows ::
  "(nat \<Rightarrow> reply) \<Rightarrow> connection \<Rightarrow> required_category list \<Rightarrow> cc_state
     \<Rightarrow> (cc_state \<times> exn option) option" where
  "cc_rows replies conn [] s = Some (s, None)"
| "cc_rows replies conn (row # rows) s =
     (case cc_loop replies conn row s of
        None \<Rightarrow> None
      | Some (s', Some e) \<Rightarrow> Some (s', Some e)
      | Some (s', None) \<Rightarrow> cc_rows replies conn rows s')"

text \<open>
  \<^verbatim>\<open>view_colored_categories\<close> from the replies on, up to the list that is written into
  the page of the viewer.
\<close>

definition view_colored_categories ::
  "connection \<Rightarrow> (nat \<Rightarrow> reply) \<Rightarrow> required_category list \<Rightarrow> (cc_state \<times> exn option) option" where
  "view_colored_categories conn replies rows =
     cc_rows replies conn rows \<lparr>sent = [], external_ids_with_colors = [], warnings = []\<rparr>"

section \<open>The terms of the specification\<close>

text \<open>
  The reconciliation table of the specification: a category is in the contract when a row
  of the user's list declares it, and in the model when its element count is greater
  than zero; the two answers give one of four classifications.
\<close>

datatype classification =
    PresentInContractAndModel
  | InContractMissingFromModel
  | InModelMissingFromContract
  | NeitherContractNorModel

fun classify :: "bool \<Rightarrow> bool \<Rightarrow> classification" where
  "classify True True = PresentInContractAndModel"
| "classify True False = InContractMissingFromModel"
| "classify False True = InModelMissingFromContract"
| "classify False False = NeitherContractNorModel"

definition in_contract :: "required_category list \<Rightarrow> string \<Rightarrow> bool" where
  "in_contract rows c \<longleftrightarrow> c \<in> set (map category rows)"

definition in_model :: "py_dict \<Rightarrow> string \<Rightarrow> bool" where
  "in_model counts c \<longleftrightarrow> (case counts (JStr c) of Some (JNum n) \<Rightarrow> 0 < n | _ \<Rightarrow> False)"

text \<open>The counts of the listed categories are integers, as the API declares them.\<close>

fun is_count :: "json \<Rightarrow> bool" where
  "is_count (JNum n) = True"
| "is_count _ = False"

definition counts_are_integers :: "py_dict \<Rightarrow> string list \<Rightarrow> bool" where
  "counts_are_integers counts cs = list_all (\<lambda>c. is_count (dict_get counts (JStr c) (JNum 0))) cs"

text \<open>How each view words the four classifications.\<close>

fun summary_text :: "classification \<Rightarrow> string" where
  "summary_text PresentInContractAndModel = ''Present in contract and model''"
| "summary_text InContractMissingFromModel = ''In contract but not in model''"
| "summary_text InModelMissingFromContract = ''Missing in the contract''"
| "summary_text NeitherContractNorModel = ''Not in contract, not in model''"

fun report_wording :: "json \<Rightarrow> classification \<Rightarrow> report_text" where
  "report_wording n PresentInContractAndModel = PresentElements n"
| "report_wording n InContractMissingFromModel = PlainText ''In contract but not in model''"
| "report_wording n InModelMissingFromContract = PlainText ''Missing in the contract''"
| "report_wording n NeitherContractNorModel = PlainText ''Not in contract, not in model''"

text \<open>
  The entries \<^verbatim>\<open>{value, count}\<close> of an aggregate response in the order of the response,
  the category name and the count an entry reports, and the count that the last entry
  with a given name reports (the name as a dict key).
\<close>

definition entry_name :: "json \<Rightarrow> json" where
  "entry_name v = (case py_get v ''value'' (JStr []) of Inr n \<Rightarrow> n | Inl e \<Rightarrow> JNull)"

definition entry_count :: "json \<Rightarrow> json" where
  "entry_count v = (case py_get v ''count'' (JNum 0) of Inr n \<Rightarrow> n | Inl e \<Rightarrow> JNull)"

definition values_of :: "json \<Rightarrow> json list" where
  "values_of r =
     (case bind_exn (py_get r ''values'' JNull) (\<lambda>vals. py_iter (py_or vals (JArr []))) of
        Inr values \<Rightarrow> values
      | Inl e \<Rightarrow> [])"

definition reported_entries :: "json \<Rightarrow> json list" where
  "reported_entries data =
     (case bind_exn (py_get data ''distinctPropertyValuesInElementGroupByName'' JNull) (\<lambda>b.
           bind_exn (py_get (py_or b (JObj [])) ''results'' JNull) (\<lambda>r.
             py_iter (py_or r (JArr [])))) of
        Inr results_list \<Rightarrow> concat (map values_of results_list)
      | Inl e \<Rightarrow> [])"

fun last_count :: "json list \<Rightarrow> json \<Rightarrow> json option" where
  "last_count [] k = None"
| "last_count (v # vs) k =
     (case last_count vs k of
        Some c \<Rightarrow> Some c
      | None \<Rightarrow> if truthy (entry_name v) \<and> dict_key (entry_name v) = k
                then Some (entry_count v) else None)"

text \<open>
  The page a reply carries, as both loops read it: its elements and its cursor; \<open>None\<close>
  when the request or the reading raises. \<open>fetched_elements\<close> are the elements of the
  \<open>i\<close>-th reply.
\<close>

definition fetched_page :: "reply \<Rightarrow> (json list \<times> json) option" where
  "fetched_page r =
     (case bind_exn (execute_graphql r) (\<lambda>data.
           bind_exn (page_block data) (\<lambda>block.
           bind_exn (page_elements block) (\<lambda>elements.
           bind_exn (new_cursor_of block) (\<lambda>new_cursor. Inr (elements, new_cursor))))) of
        Inr p \<Rightarrow> Some p
      | Inl e \<Rightarrow> None)"

definition fetched_elements :: "(nat \<Rightarrow> reply) \<Rightarrow> nat \<Rightarrow> json list" where
  "fetched_elements replies i =
     (case fetched_page (replies i) of Some p \<Rightarrow> fst p | None \<Rightarrow> [])"

text \<open>
  The pagination contract in the words of the specification. The cursor is optional:
  the returned cursor is absent when the page has none (no \<^verbatim>\<open>cursor\<close> key, or null). The
  loop is to stop if the returned cursor is absent, if it equals the preceding cursor, or
  if the page has no results.
\<close>

definition spec_cursor :: "reply \<Rightarrow> json option" where
  "spec_cursor r =
     (case fetched_page r of
        Some p \<Rightarrow> (if snd p = JNull then None else Some (snd p))
      | None \<Rightarrow> None)"

definition spec_count :: "reply \<Rightarrow> nat" where
  "spec_count r = (case fetched_page r of Some p \<Rightarrow> length (fst p) | None \<Rightarrow> 0)"

definition spec_stops :: "json option \<Rightarrow> json option \<Rightarrow> nat \<Rightarrow> bool" where
  "spec_stops returned preceding n \<longleftrightarrow> returned = None \<or> returned = preceding \<or> n = 0"

text \<open>
  The value of the last property of a list that has the given name, and the \<^verbatim>\<open>name\<close>
  field of an element.
\<close>

definition property_name :: "json \<Rightarrow> json" where
  "property_name prop = (case py_get prop ''name'' (JStr []) of Inr n \<Rightarrow> n | Inl e \<Rightarrow> JNull)"

definition property_value :: "json \<Rightarrow> json" where
  "property_value prop = (case py_get prop ''value'' (JStr []) of Inr v \<Rightarrow> v | Inl e \<Rightarrow> JNull)"

fun last_named :: "string \<Rightarrow> json list \<Rightarrow> json option" where
  "last_named nm [] = None"
| "last_named nm (prop # props) =
     (case last_named nm props of
        Some v \<Rightarrow> Some v
      | None \<Rightarrow> if py_eq (property_name prop) (JStr nm) then Some (property_value prop) else None)"

definition name_field :: "json \<Rightarrow> json option" where
  "name_field element = (case element of JObj kvs \<Rightarrow> map_of kvs ''name'' | _ \<Rightarrow> None)"

definition properties_of :: "json \<Rightarrow> json list" where
  "properties_of element =
     (case bind_exn (py_get element ''properties'' (JObj [])) (\<lambda>p.
           bind_exn (py_get p ''results'' (JArr [])) (\<lambda>r. py_iter (py_or r (JArr [])))) of
        Inr props \<Rightarrow> props
      | Inl e \<Rightarrow> [])"

text \<open>The external id of an element, null when reading it raises.\<close>

definition external_id_of :: "json \<Rightarrow> json" where
  "external_id_of element = (case cc_external_id element of Inr x \<Rightarrow> x | Inl e \<Rightarrow> JNull)"

section \<open>Sample replies\<close>

text \<open>
  Concrete connections, elements and replies, for the instances of the theorems below.
  \<open>ok_response\<close> is a reply with status 200 whose body holds the given \<^verbatim>\<open>data\<close>;
  \<open>page_data\<close> is the \<^verbatim>\<open>data\<close> of a page of elements with a cursor.
\<close>

definition conn0 :: connection where
  "conn0 = \<lparr>token = ''t0'', region = ''US'', group_id = ''g0''\<rparr>"

definition ok_response :: "json \<Rightarrow> reply" where
  "ok_response data =
     Inr \<lparr>status_code = 200, body_text = [], json_body = Some (JObj [(''data'', data)])\<rparr>"

definition page_data :: "json list \<Rightarrow> json \<Rightarrow> json" where
  "page_data elements cursor =
     JObj [(''elementsByElementGroup'',
            JObj [(''pagination'', JObj [(''cursor'', cursor), (''pageSize'', JNum 100)]),
                  (''results'', JArr elements)])]"

definition wall_element :: json where
  "wall_element =
     JObj [(''id'', JStr ''e1''), (''name'', JStr ''Wall 1''),
           (''alternativeIdentifiers'', JObj [(''externalElementId'', JStr ''x1'')]),
           (''properties'', JObj [(''results'',
              JArr [JObj [(''name'', JStr ''Family Name''), (''value'', JStr ''Basic Wall'')],
                    JObj [(''name'', JStr ''Type Name''), (''value'', JStr ''Generic 200'')]])])]"

text \<open>An element with an empty name, an empty family name and no external id.\<close>

definition unnamed_element :: json where
  "unnamed_element =
     JObj [(''id'', JStr ''e2''), (''name'', JStr []),
           (''alternativeIdentifiers'', JObj [(''externalElementId'', JNull)]),
           (''properties'', JObj [(''results'',
              JArr [JObj [(''name'', JStr ''Family Name''), (''value'', JStr [])]])])]"

definition always :: "reply \<Rightarrow> nat \<Rightarrow> reply" where
  "always r n = r"

text \<open>
  An API that answers every request with a page of one element and a cursor that
  alternates between \<^verbatim>\<open>"A"\<close> and \<^verbatim>\<open>"B"\<close>.
\<close>

definition replies_ab :: "nat \<Rightarrow> reply" where
  "replies_ab n = ok_response (page_data [wall_element] (JStr (if even n then ''A'' else ''B'')))"

text \<open>
  An API that answers every request with the same page and the same cursor \<^verbatim>\<open>"A"\<close>; a
  page whose cursor is the empty string; a last page (its cursor is null) whose only
  element has no external id; an API that fails every request with status 500.
\<close>

definition replies_aa :: "nat \<Rightarrow> reply" where
  "replies_aa = always (ok_response (page_data [wall_element] (JStr ''A'')))"

definition empty_cursor_page :: reply where
  "empty_cursor_page = ok_response (page_data [wall_element] (JStr []))"

definition no_id_page :: reply where
  "no_id_page = ok_response (page_data [unnamed_element] JNull)"

definition server_error :: reply where
  "server_error = Inr \<lparr>status_code = 500, body_text = ''Internal Server Error'', json_body = None\<rparr>"

text \<open>An API with two pages: one wall with the cursor \<^verbatim>\<open>"A"\<close>, then the last page.\<close>

definition two_pages :: "nat \<Rightarrow> reply" where
  "two_pages n =
     (if n = 0 then ok_response (page_data [wall_element] (JStr ''A'')) else no_id_page)"

text \<open>
  An API whose second reply is a server error: a page of one wall with the cursor
  \<^verbatim>\<open>"A"\<close>, the error, and from then on a last page of one wall.
\<close>

definition failing_second :: "nat \<Rightarrow> reply" where
  "failing_second n =
     (if n = 0 then ok_response (page_data [wall_element] (JStr ''A''))
      else if n = 1 then server_error
      else ok_response (page_data [wall_element] JNull))"

definition walls_row :: required_category where
  "walls_row = \<lparr>category = ''Walls'', color = \<lparr>rgb = (0, 255, 0), hex = ''#00ff00''\<rparr>\<rparr>"

definition doors_row :: required_category where
  "doors_row = \<lparr>category = ''Doors'', color = \<lparr>rgb = (255, 0, 0), hex = ''#ff0000''\<rparr>\<rparr>"

definition roofs_row :: required_category where
  "roofs_row = \<lparr>category = ''Roofs'', color = \<lparr>rgb = (0, 0, 255), hex = ''#0000ff''\<rparr>\<rparr>"

text \<open>
  The \<^verbatim>\<open>data\<close> of an aggregate response: walls twice, doors, and an entry with an empty
  name.
\<close>

definition category_counts_data :: json where
  "category_counts_data =
     JObj [(''distinctPropertyValuesInElementGroupByName'',
       JObj [(''results'', JArr [JObj [(''values'',
         JArr [JObj [(''value'', JStr ''Walls''), (''count'', JNum 7)],
               JObj [(''value'', JStr ''Doors''), (''count'', JNum 2)],
               JObj [(''value'', JStr []), (''count'', JNum 5)],
               JObj [(''value'', JStr ''Walls''), (''count'', JNum 12)]])]])])]"

definition fi0 :: fi_state where
  "fi0 = \<lparr>sent = [], all_instances = []\<rparr>"

definition cc0 :: cc_state where
  "cc0 = \<lparr>sent = [], external_ids_with_colors = [], warnings = []\<rparr>"

section \<open>Basic facts\<close>

lemma bind_exn_Inl [simp]: "bind_exn (Inl e) f = Inl e"
  by (simp add: bind_exn_def)

lemma bind_exn_Inr [simp]: "bind_exn (Inr x) f = f x"
  by (simp add: bind_exn_def)

lemma bind_exn_eq_Inr: "bind_exn m f = Inr y \<longleftrightarrow> (\<exists>x. m = Inr x \<and> f x = Inr y)"
  by (cases m) simp_all

lemma py_get_eq_Inr:
  "py_get j k d = Inr v \<longleftrightarrow>
     (\<exists>kvs. j = JObj kvs \<and> v = (case map_of kvs k of Some w \<Rightarrow> w | None \<Rightarrow> d))"
  by (cases j) auto

text \<open>The loop and its unrolling: the loop returns exactly what some unrolling leaves with.\<close>

lemma passes_stop:
  "passes n body c s = (s', out) \<Longrightarrow> \<not> continues out \<Longrightarrow>
   paginate body c s = Some (s', left_with out)"
proof (induction n arbitrary: c s)
  case 0
  then show ?case by auto
next
  case (Suc n)
  obtain s1 o1 where b: "body c s = (s1, o1)" by (cases "body c s")
  show ?case
  proof (cases o1)
    case (Continue c1)
    with Suc.prems b have "passes n body c1 s1 = (s', out)" by simp
    then have "paginate body c1 s1 = Some (s', left_with out)"
      using Suc.prems(2) by (rule Suc.IH)
    with b Continue show ?thesis by (subst paginate.simps) simp
  next
    case (Raise e)
    with Suc.prems b show ?thesis by (subst paginate.simps) auto
  next
    case Break
    with Suc.prems b show ?thesis by (subst paginate.simps) auto
  qed
qed

lemma paginate_returns:
  assumes "paginate body c s = Some r"
  shows "\<exists>n s' out. passes n body c s = (s', out) \<and> \<not> continues out \<and> r = (s', left_with out)"
proof (rule paginate.raw_induct
    [where P = "\<lambda>body c s r. \<exists>n s' out. passes n body c s = (s', out) \<and> \<not> continues out \<and>
                   r = (s', left_with out)", OF _ assms])
  fix f and body :: "json \<Rightarrow> 'a \<Rightarrow> 'a \<times> outcome" and c s r
  assume IH: "\<And>body c s r. f body c s = Some r \<Longrightarrow>
      \<exists>n s' out. passes n body c s = (s', out) \<and> \<not> continues out \<and> r = (s', left_with out)"
    and eq: "(case body c s of
        (s', Raise e) \<Rightarrow> Some (s', Some e)
      | (s', Break) \<Rightarrow> Some (s', None)
      | (s', Continue new_cursor) \<Rightarrow> f body new_cursor s') = Some r"
  obtain s1 o1 where b: "body c s = (s1, o1)" by (cases "body c s")
  show "\<exists>n s' out. passes n body c s = (s', out) \<and> \<not> continues out \<and> r = (s', left_with out)"
  proof (cases o1)
    case (Continue c1)
    with eq b have "f body c1 s1 = Some r" by simp
    then obtain n s' out where
      "passes n body c1 s1 = (s', out)" "\<not> continues out" "r = (s', left_with out)"
      using IH by blast
    with b Continue
    have "passes (Suc n) body c s = (s', out) \<and> \<not> continues out \<and> r = (s', left_with out)"
      by simp
    then show ?thesis by blast
  next
    case (Raise e)
    with eq b
    have "passes (Suc 0) body c s = (s1, o1) \<and> \<not> continues o1 \<and> r = (s1, left_with o1)"
      by auto
    then show ?thesis by blast
  next
    case Break
    with eq b
    have "passes (Suc 0) body c s = (s1, o1) \<and> \<not> continues o1 \<and> r = (s1, left_with o1)"
      by auto
    then show ?thesis by blast
  qed
qed

lemma paginate_forever:
  assumes "\<And>n. continues (snd (passes n body c s))"
  shows "paginate body c s = None"
proof (cases "paginate body c s")
  case None
  then show ?thesis .
next
  case (Some r)
  from paginate_returns [OF Some]
  obtain n s' out where "passes n body c s = (s', out)" "\<not> continues out"
    by blast
  with assms [of n] show ?thesis by simp
qed

lemma passes_Suc_end:
  "passes (Suc n) body c s =
     (case passes n body c s of
        (s', Continue c') \<Rightarrow> body c' s'
      | (s', out) \<Rightarrow> (s', out))"
proof (induction n arbitrary: c s)
  case 0
  show ?case by (cases "body c s"; cases "snd (body c s)") auto
next
  case (Suc n)
  obtain s1 o1 where b: "body c s = (s1, o1)" by (cases "body c s")
  show ?case
  proof (cases o1)
    case (Continue c1)
    have "passes (Suc (Suc n)) body c s = passes (Suc n) body c1 s1"
      using b Continue by simp
    also have "\<dots> = (case passes n body c1 s1 of
        (s', Continue c') \<Rightarrow> body c' s' | (s', out) \<Rightarrow> (s', out))"
      by (rule Suc.IH)
    also have "passes n body c1 s1 = passes (Suc n) body c s"
      using b Continue by simp
    finally show ?thesis .
  next
    case (Raise e)
    with b show ?thesis by simp
  next
    case Break
    with b show ?thesis by simp
  qed
qed

section \<open>The client helper raises or returns the data\<close>

text \<open>
  C4. \<^verbatim>\<open>execute_graphql\<close> raises when the status of the response is not 200, and when
  the body holds an \<^verbatim>\<open>errors\<close> field that is not empty (Python's truth test: a list
  with an item); with status 200 and a body that is a JSON object with no such field it
  returns the \<^verbatim>\<open>data\<close> field of the body (\<^verbatim>\<open>{}\<close> when the body has none). It returns
  in no other case: whenever it returns, the status was 200, the body was an object
  with no \<^verbatim>\<open>errors\<close> to report, and the value returned is the \<^verbatim>\<open>data\<close> field.
\<close>

theorem execute_graphql_contract:
  "(status_code resp \<noteq> 200 \<longrightarrow>
      execute_graphql (Inr resp) = Inl (RuntimeError_HTTP (status_code resp) (body_text resp)))
   \<and> (json_body resp = Some (JObj body) \<and> map_of body ''errors'' = Some errors \<and>
        truthy errors \<longrightarrow>
        (\<exists>e. execute_graphql (Inr resp) = Inl e) \<and>
        (status_code resp = 200 \<longrightarrow>
           execute_graphql (Inr resp) = Inl (RuntimeError_GraphQL errors)))
   \<and> (status_code resp = 200 \<and> json_body resp = Some (JObj body) \<and>
        (map_of body ''errors'' = None \<or>
         (\<exists>errors. map_of body ''errors'' = Some errors \<and> \<not> truthy errors)) \<longrightarrow>
        execute_graphql (Inr resp) =
          Inr (case map_of body ''data'' of Some d \<Rightarrow> d | None \<Rightarrow> JObj []))
   \<and> (execute_graphql r = Inr d \<longrightarrow>
        (\<exists>resp' body'. r = Inr resp' \<and> status_code resp' = 200 \<and>
           json_body resp' = Some (JObj body') \<and>
           (map_of body' ''errors'' = None \<or>
            (\<exists>errors. map_of body' ''errors'' = Some errors \<and> \<not> truthy errors)) \<and>
           d = (case map_of body' ''data'' of Some d \<Rightarrow> d | None \<Rightarrow> JObj [])))"
proof (intro conjI impI)
  assume "status_code resp \<noteq> 200"
  then show "execute_graphql (Inr resp) =
      Inl (RuntimeError_HTTP (status_code resp) (body_text resp))"
    by (simp add: execute_graphql_def)
next
  assume h: "json_body resp = Some (JObj body) \<and> map_of body ''errors'' = Some errors \<and>
      truthy errors"
  then show "\<exists>e. execute_graphql (Inr resp) = Inl e"
    by (simp add: execute_graphql_def)
  assume "status_code resp = 200"
  with h show "execute_graphql (Inr resp) = Inl (RuntimeError_GraphQL errors)"
    by (simp add: execute_graphql_def)
next
  assume "status_code resp = 200 \<and> json_body resp = Some (JObj body) \<and>
      (map_of body ''errors'' = None \<or>
       (\<exists>errors. map_of body ''errors'' = Some errors \<and> \<not> truthy errors))"
  then show "execute_graphql (Inr resp) =
      Inr (case map_of body ''data'' of Some d \<Rightarrow> d | None \<Rightarrow> JObj [])"
    by (auto simp: execute_graphql_def)
next
  assume ret: "execute_graphql r = Inr d"
  then obtain resp' where r: "r = Inr resp'"
    by (cases r) (simp_all add: execute_graphql_def)
  from ret r have st: "status_code resp' = 200"
    by (auto simp: execute_graphql_def split: if_splits)
  from ret r st obtain b where b: "json_body resp' = Some b"
    by (cases "json_body resp'") (simp_all add: execute_graphql_def)
  from ret r st b obtain body' where body': "b = JObj body'"
    by (cases b) (simp_all add: execute_graphql_def)
  from ret r st b body'
  have "(map_of body' ''errors'' = None \<or>
         (\<exists>errors. map_of body' ''errors'' = Some errors \<and> \<not> truthy errors)) \<and>
        d = (case map_of body' ''data'' of Some d \<Rightarrow> d | None \<Rightarrow> JObj [])"
    by (cases "map_of body' ''errors''") (auto simp: execute_graphql_def split: if_splits)
  with r st b body'
  show "\<exists>resp' body'. r = Inr resp' \<and> status_code resp' = 200 \<and>
      json_body resp' = Some (JObj body') \<and>
      (map_of body' ''errors'' = None \<or>
       (\<exists>errors. map_of body' ''errors'' = Some errors \<and> \<not> truthy errors)) \<and>
      d = (case map_of body' ''data'' of Some d \<Rightarrow> d | None \<Rightarrow> JObj [])"
    by blast
qed

text \<open>
  The contract at three responses: a status 503, a status 200 with one GraphQL error, and
  a status 200 with data and an empty list of errors.
\<close>

theorem execute_graphql_contract_witness:
  "execute_graphql (Inr \<lparr>status_code = 503, body_text = ''busy'', json_body = None\<rparr>) =
     Inl (RuntimeError_HTTP 503 ''busy'')
   \<and> execute_graphql
        (Inr \<lparr>status_code = 200, body_text = [],
              json_body = Some (JObj [(''errors'', JArr [JStr ''bad filter''])])\<rparr>) =
      Inl (RuntimeError_GraphQL (JArr [JStr ''bad filter'']))
   \<and> execute_graphql
        (Inr \<lparr>status_code = 200, body_text = [],
              json_body = Some (JObj [(''errors'', JArr []), (''data'', JObj [(''n'', JNum 1)])])\<rparr>) =
      Inr (JObj [(''n'', JNum 1)])"
proof (intro conjI)
  show "execute_graphql (Inr \<lparr>status_code = 503, body_text = ''busy'', json_body = None\<rparr>) =
     Inl (RuntimeError_HTTP 503 ''busy'')"
    using execute_graphql_contract
      [of "\<lparr>status_code = 503, body_text = ''busy'', json_body = None\<rparr>"]
    by simp
  show "execute_graphql
        (Inr \<lparr>status_code = 200, body_text = [],
              json_body = Some (JObj [(''errors'', JArr [JStr ''bad filter''])])\<rparr>) =
      Inl (RuntimeError_GraphQL (JArr [JStr ''bad filter'']))"
    using execute_graphql_contract
      [of "\<lparr>status_code = 200, body_text = [],
              json_body = Some (JObj [(''errors'', JArr [JStr ''bad filter''])])\<rparr>"
          "[(''errors'', JArr [JStr ''bad filter''])]" "JArr [JStr ''bad filter'']"]
    by simp
  show "execute_graphql
        (Inr \<lparr>status_code = 200, body_text = [],
              json_body = Some (JObj [(''errors'', JArr []), (''data'', JObj [(''n'', JNum 1)])])\<rparr>) =
      Inr (JObj [(''n'', JNum 1)])"
    using execute_graphql_contract
      [of "\<lparr>status_code = 200, body_text = [],
              json_body = Some (JObj [(''errors'', JArr []), (''data'', JObj [(''n'', JNum 1)])])\<rparr>"
          "[(''errors'', JArr []), (''data'', JObj [(''n'', JNum 1)])]"]
    by simp
qed

section \<open>The dict of category counts\<close>

lemma count_values_last:
  "count_values vs m = Inr m' \<Longrightarrow>
   m' k = (case last_count vs k of Some c \<Rightarrow> Some c | None \<Rightarrow> m k)"
proof (induction vs arbitrary: m)
  case Nil
  then show ?case by simp
next
  case (Cons v vs)
  from Cons.prems obtain name cnt where
    n: "py_get v ''value'' (JStr []) = Inr name" and c: "py_get v ''count'' (JNum 0) = Inr cnt"
    and rest: "(if truthy name then bind_exn (py_setitem m name cnt) (count_values vs)
                else count_values vs m) = Inr m'"
    by (auto simp: bind_exn_eq_Inr)
  have en: "entry_name v = name" "entry_count v = cnt"
    using n c by (simp_all add: entry_name_def entry_count_def)
  show ?case
  proof (cases "truthy name")
    case True
    with rest obtain m1 where m1: "py_setitem m name cnt = Inr m1" and r: "count_values vs m1 = Inr m'"
      by (auto simp: bind_exn_eq_Inr)
    from m1 have m1_eq: "m1 = m(dict_key name \<mapsto> cnt)"
      by (auto simp: py_setitem_def split: if_splits)
    from Cons.IH [OF r] have "m' k = (case last_count vs k of Some c \<Rightarrow> Some c | None \<Rightarrow> m1 k)" .
    with True en m1_eq show ?thesis by (simp split: option.splits)
  next
    case False
    with rest have r: "count_values vs m = Inr m'" by simp
    from Cons.IH [OF r] False en show ?thesis by (simp split: option.splits)
  qed
qed

lemma last_count_append:
  "last_count (xs @ ys) k = (case last_count ys k of Some c \<Rightarrow> Some c | None \<Rightarrow> last_count xs k)"
  by (induction xs) (simp_all split: option.splits)

lemma count_results_last:
  "count_results rs m = Inr m' \<Longrightarrow>
   m' k = (case last_count (concat (map values_of rs)) k of Some c \<Rightarrow> Some c | None \<Rightarrow> m k)"
proof (induction rs arbitrary: m)
  case Nil
  then show ?case by simp
next
  case (Cons r rs)
  from Cons.prems obtain vals vls m1 where
    v: "py_get r ''values'' JNull = Inr vals" and it: "py_iter (py_or vals (JArr [])) = Inr vls"
    and cv: "count_values vls m = Inr m1" and cr: "count_results rs m1 = Inr m'"
    by (auto simp: bind_exn_eq_Inr)
  from v it have vo: "values_of r = vls" by (simp add: values_of_def)
  from count_values_last [OF cv] have m1: "m1 k = (case last_count vls k of Some c \<Rightarrow> Some c | None \<Rightarrow> m k)" .
  from Cons.IH [OF cr] have "m' k = (case last_count (concat (map values_of rs)) k of Some c \<Rightarrow> Some c | None \<Rightarrow> m1 k)" .
  with m1 vo show ?case by (simp add: last_count_append split: option.splits)
qed

lemma model_category_counts_last:
  assumes "model_category_counts data = Inr counts"
  shows "counts k = last_count (reported_entries data) k"
proof -
  from assms obtain b r results_list where
    b: "py_get data ''distinctPropertyValuesInElementGroupByName'' JNull = Inr b"
    and r: "py_get (py_or b (JObj [])) ''results'' JNull = Inr r"
    and it: "py_iter (py_or r (JArr [])) = Inr results_list"
    and cr: "count_results results_list Map.empty = Inr counts"
    by (auto simp: model_category_counts_def bind_exn_eq_Inr)
  from b r it have "reported_entries data = concat (map values_of results_list)"
    by (simp add: reported_entries_def)
  with count_results_last [OF cr, of k] show ?thesis by (simp split: option.splits)
qed

lemma last_count_truthy: "last_count vs k = Some c \<Longrightarrow> truthy k"
proof (induction vs)
  case Nil then show ?case by simp
next
  case (Cons v vs)
  show ?case
  proof (cases "last_count vs k")
    case None
    with Cons.prems have "truthy (entry_name v)" "dict_key (entry_name v) = k"
      by (auto split: if_splits)
    then show ?thesis by (cases "entry_name v") auto
  next
    case (Some a)
    then show ?thesis using Cons.IH Cons.prems by simp
  qed
qed

section \<open>Reconciliation of the contract with the model\<close>

lemma gt_zero_count:
  "is_count (dict_get counts (JStr c) (JNum 0)) \<Longrightarrow>
   py_gt_zero (dict_get counts (JStr c) (JNum 0)) = Inr (in_model counts c)"
  by (cases "counts (JStr c)"; cases "the (counts (JStr c))")
     (auto simp: dict_get_def in_model_def)

lemma summary_row_of_count:
  assumes "is_count (dict_get counts (JStr c) (JNum 0))"
  shows "\<exists>row. summary_row_of required counts c = Inr row \<and> row_category row = c \<and>
           row_count row = dict_get counts (JStr c) (JNum 0) \<and>
           row_text row = summary_text (classify (c \<in> required) (in_model counts c))"
  using gt_zero_count [OF assms]
  by (cases "c \<in> required"; cases "in_model counts c") (simp_all add: summary_row_of_def)

lemma summary_rows_counts:
  "counts_are_integers counts cs \<Longrightarrow>
   \<exists>rows. summary_rows required counts cs = Inr rows \<and> map row_category rows = cs \<and>
     map row_text rows = map (\<lambda>c. summary_text (classify (c \<in> required) (in_model counts c))) cs"
proof (induction cs)
  case Nil
  then show ?case by simp
next
  case (Cons c cs)
  from Cons.prems have c: "is_count (dict_get counts (JStr c) (JNum 0))"
    and cs: "counts_are_integers counts cs"
    by (simp_all add: counts_are_integers_def)
  from summary_row_of_count [OF c, of required] obtain row where
    row: "summary_row_of required counts c = Inr row" "row_category row = c"
      "row_text row = summary_text (classify (c \<in> required) (in_model counts c))"
    by blast
  from Cons.IH [OF cs] obtain rows where
    rows: "summary_rows required counts cs = Inr rows" "map row_category rows = cs"
      "map row_text rows = map (\<lambda>c. summary_text (classify (c \<in> required) (in_model counts c))) cs"
    by blast
  from row rows show ?case by simp
qed

lemma report_rows_counts:
  "counts_are_integers counts cs \<Longrightarrow>
   \<exists>rows. report_rows required counts cs = Inr rows \<and> map report_category rows = cs \<and>
     map report_text rows =
       map (\<lambda>c. report_wording (dict_get counts (JStr c) (JNum 0))
                  (classify (c \<in> required) (in_model counts c))) cs"
proof (induction cs)
  case Nil
  then show ?case by simp
next
  case (Cons c cs)
  from Cons.prems have c: "is_count (dict_get counts (JStr c) (JNum 0))"
    and cs: "counts_are_integers counts cs"
    by (simp_all add: counts_are_integers_def)
  from Cons.IH [OF cs] obtain rows where
    rows: "report_rows required counts cs = Inr rows" "map report_category rows = cs"
      "map report_text rows =
         map (\<lambda>c. report_wording (dict_get counts (JStr c) (JNum 0))
                    (classify (c \<in> required) (in_model counts c))) cs"
    by blast
  from gt_zero_count [OF c] rows show ?case
    by (cases "c \<in> required"; cases "in_model counts c") (simp_all add: Let_def)
qed

lemma group_categories_counts:
  "counts_are_integers counts cs \<Longrightarrow>
   \<exists>g'. group_categories required counts cs g = Inr g' \<and>
     map item_label (present_group g') = map item_label (present_group g) @
       filter (\<lambda>c. classify (c \<in> required) (in_model counts c) = PresentInContractAndModel) cs \<and>
     map item_label (missing_from_model_group g') = map item_label (missing_from_model_group g) @
       filter (\<lambda>c. classify (c \<in> required) (in_model counts c) = InContractMissingFromModel) cs \<and>
     map item_label (missing_from_contract_group g') = map item_label (missing_from_contract_group g) @
       filter (\<lambda>c. classify (c \<in> required) (in_model counts c) = InModelMissingFromContract) cs \<and>
     map item_label (not_applicable_group g') = map item_label (not_applicable_group g) @
       filter (\<lambda>c. classify (c \<in> required) (in_model counts c) = NeitherContractNorModel) cs"
proof (induction cs arbitrary: g)
  case Nil
  then show ?case by simp
next
  case (Cons c cs)
  from Cons.prems have c: "is_count (dict_get counts (JStr c) (JNum 0))"
    and cs: "counts_are_integers counts cs"
    by (simp_all add: counts_are_integers_def)
  note gz = gt_zero_count [OF c]
  show ?case
  proof (cases "c \<in> required"; cases "in_model counts c")
    assume a: "c \<in> required" "in_model counts c"
    from Cons.IH [OF cs, of "g\<lparr>present_group := present_group g @
                 [\<lparr>item_label = c, item_value = dict_get counts (JStr c) (JNum 0), item_status = SUCCESS,
                   item_message = (Some CheckMark, ''Present in contract and model'')\<rparr>]\<rparr>"]
    show ?thesis using a gz by (simp add: Let_def)
  next
    assume a: "c \<in> required" "\<not> in_model counts c"
    from Cons.IH [OF cs, of "g\<lparr>missing_from_model_group := missing_from_model_group g @
                 [\<lparr>item_label = c, item_value = JStr ''0'', item_status = ERROR,
                   item_message = (Some CrossMark, ''In contract but not in model'')\<rparr>]\<rparr>"]
    show ?thesis using a gz by (simp add: Let_def)
  next
    assume a: "c \<notin> required" "in_model counts c"
    from Cons.IH [OF cs, of "g\<lparr>missing_from_contract_group := missing_from_contract_group g @
                 [\<lparr>item_label = c, item_value = dict_get counts (JStr c) (JNum 0), item_status = WARNING,
                   item_message = (Some CrossMark, ''Missing in the contract'')\<rparr>]\<rparr>"]
    show ?thesis using a gz by (simp add: Let_def)
  next
    assume a: "c \<notin> required" "\<not> in_model counts c"
    from Cons.IH [OF cs, of "g\<lparr>not_applicable_group := not_applicable_group g @
                 [\<lparr>item_label = c, item_value = JStr ''0'', item_status = INFO,
                   item_message = (None, ''Not in contract, not in model'')\<rparr>]\<rparr>"]
    show ?thesis using a gz by (simp add: Let_def)
  qed
qed

lemma count_in_model_counts:
  "counts_are_integers counts cs \<Longrightarrow>
   count_in_model counts cs = Inr (length (filter (in_model counts) cs))"
proof (induction cs)
  case Nil
  then show ?case by simp
next
  case (Cons c cs)
  from Cons.prems have c: "is_count (dict_get counts (JStr c) (JNum 0))"
    and cs: "counts_are_integers counts cs"
    by (simp_all add: counts_are_integers_def)
  from gt_zero_count [OF c] Cons.IH [OF cs] show ?case by simp
qed

lemma counts_are_integers_subset:
  "counts_are_integers counts cs \<Longrightarrow> set ds \<subseteq> set cs \<Longrightarrow> counts_are_integers counts ds"
  by (auto simp: counts_are_integers_def list_all_iff)

lemma all_categories_length: "length all_categories = 20"
  by (simp add: all_categories_def)

lemma all_categories_distinct: "distinct all_categories"
  by (simp add: all_categories_def)

text \<open>
  C2. The master list has 20 distinct categories. When the counts the API reports for
  them are integers, each of the three reporting views gives every category of the
  master list the classification that the pair (in contract, in model) decides, and
  nothing else decides it: the table of \<^verbatim>\<open>view_category_summary\<close> and the document of
  \<^verbatim>\<open>download_category_report\<close> have one row per category, in the order of the master
  list, worded after the classification; \<^verbatim>\<open>view_category_data\<close> puts a category into
  the one of its four groups that stands for its classification. In the contract: a row
  of the user's list declares the category. In the model: its count is greater than
  zero.
\<close>

theorem reconciliation_classification:
  assumes counts: "fetch_category_counts (replies 0) = Inr counts"
    and ints: "counts_are_integers counts all_categories"
    and opts: "set (map category rows) \<subseteq> set all_categories"
  shows "length all_categories = 20 \<and> distinct all_categories
    \<and> map_sum id (map (\<lambda>r. (row_category r, row_text r)))
        (snd (view_category_summary conn replies rows)) =
      Inr (map (\<lambda>c. (c, summary_text (classify (in_contract rows c) (in_model counts c))))
             all_categories)
    \<and> map_sum id (\<lambda>d. map item_label (present_group (groups d)))
        (snd (view_category_data conn replies rows)) =
      Inr (filter (\<lambda>c. classify (in_contract rows c) (in_model counts c) =
                        PresentInContractAndModel) all_categories)
    \<and> map_sum id (\<lambda>d. map item_label (missing_from_model_group (groups d)))
        (snd (view_category_data conn replies rows)) =
      Inr (filter (\<lambda>c. classify (in_contract rows c) (in_model counts c) =
                        InContractMissingFromModel) all_categories)
    \<and> map_sum id (\<lambda>d. map item_label (missing_from_contract_group (groups d)))
        (snd (view_category_data conn replies rows)) =
      Inr (filter (\<lambda>c. classify (in_contract rows c) (in_model counts c) =
                        InModelMissingFromContract) all_categories)
    \<and> map_sum id (\<lambda>d. map item_label (not_applicable_group (groups d)))
        (snd (view_category_data conn replies rows)) =
      Inr (filter (\<lambda>c. classify (in_contract rows c) (in_model counts c) =
                        NeitherContractNorModel) all_categories)
    \<and> map_sum id (map (\<lambda>r. (report_category r, report_text r)))
        (snd (download_category_report conn replies rows)) =
      Inr (map (\<lambda>c. (c, report_wording (dict_get counts (JStr c) (JNum 0))
                          (classify (in_contract rows c) (in_model counts c))))
             all_categories)"
proof -
  let ?req = "set (map category rows)"
  have ic: "\<And>c. in_contract rows c = (c \<in> ?req)"
    by (simp add: in_contract_def)
  from summary_rows_counts [OF ints, of ?req] obtain table where
    t: "summary_rows ?req counts all_categories = Inr table"
      "map row_category table = all_categories"
      "map row_text table =
         map (\<lambda>c. summary_text (classify (c \<in> ?req) (in_model counts c))) all_categories"
    by blast
  have "map (\<lambda>r. (row_category r, row_text r)) table =
      zip (map row_category table) (map row_text table)"
    by (simp add: zip_map_map) (induction table, simp_all)
  with t have summary: "map (\<lambda>r. (row_category r, row_text r)) table =
      map (\<lambda>c. (c, summary_text (classify (in_contract rows c) (in_model counts c)))) all_categories"
    by (simp add: ic zip_map2 zip_same_conv_map)
  from report_rows_counts [OF ints, of ?req] obtain report where
    r: "report_rows ?req counts all_categories = Inr report"
      "map report_category report = all_categories"
      "map report_text report =
         map (\<lambda>c. report_wording (dict_get counts (JStr c) (JNum 0))
                    (classify (c \<in> ?req) (in_model counts c))) all_categories"
    by blast
  have "map (\<lambda>r. (report_category r, report_text r)) report =
      zip (map report_category report) (map report_text report)"
    by (simp add: zip_map_map) (induction report, simp_all)
  with r have rep: "map (\<lambda>r. (report_category r, report_text r)) report =
      map (\<lambda>c. (c, report_wording (dict_get counts (JStr c) (JNum 0))
                      (classify (in_contract rows c) (in_model counts c)))) all_categories"
    by (simp add: ic zip_map2 zip_same_conv_map)
  have ints': "counts_are_integers counts (remdups (map category rows))"
    using opts by (intro counts_are_integers_subset [OF ints]) simp
  from group_categories_counts [OF ints, of ?req
      "\<lparr>present_group = [], missing_from_model_group = [],
        missing_from_contract_group = [], not_applicable_group = []\<rparr>"]
  obtain g where
    g: "group_categories ?req counts all_categories
          \<lparr>present_group = [], missing_from_model_group = [],
           missing_from_contract_group = [], not_applicable_group = []\<rparr> = Inr g"
      "map item_label (present_group g) =
         filter (\<lambda>c. classify (c \<in> ?req) (in_model counts c) = PresentInContractAndModel) all_categories"
      "map item_label (missing_from_model_group g) =
         filter (\<lambda>c. classify (c \<in> ?req) (in_model counts c) = InContractMissingFromModel) all_categories"
      "map item_label (missing_from_contract_group g) =
         filter (\<lambda>c. classify (c \<in> ?req) (in_model counts c) = InModelMissingFromContract) all_categories"
      "map item_label (not_applicable_group g) =
         filter (\<lambda>c. classify (c \<in> ?req) (in_model counts c) = NeitherContractNorModel) all_categories"
    by auto
  have v1: "snd (view_category_summary conn replies rows) = Inr table"
    using counts t(1) by (simp add: view_category_summary_def)
  have v3: "snd (download_category_report conn replies rows) = Inr report"
    using counts r(1) by (simp add: download_category_report_def)
  have v2: "\<exists>d. snd (view_category_data conn replies rows) = Inr d \<and> groups d = g"
    using counts g(1) count_in_model_counts [OF ints] count_in_model_counts [OF ints']
    by (simp add: view_category_data_def)
  then obtain d where d: "snd (view_category_data conn replies rows) = Inr d" "groups d = g"
    by blast
  show ?thesis
    using all_categories_length all_categories_distinct v1 summary v3 rep d g(2-5)
    by (simp add: ic)
qed

lemma sample_counts:
  "fetch_category_counts (always (ok_response category_counts_data) 0) =
     Inr [JStr ''Walls'' \<mapsto> JNum 7, JStr ''Doors'' \<mapsto> JNum 2, JStr ''Walls'' \<mapsto> JNum 12]"
  by (simp add: fetch_category_counts_def always_def ok_response_def execute_graphql_def
      category_counts_data_def model_category_counts_def py_or_def py_setitem_def)

text \<open>
  The classification at a contract of walls and roofs and a model of walls and doors: one
  category in each of the first three groups, the other seventeen in the fourth.
\<close>

theorem reconciliation_classification_witness:
  "map_sum id (\<lambda>d. map item_label (present_group (groups d)))
     (snd (view_category_data conn0 (always (ok_response category_counts_data))
        [walls_row, roofs_row])) = Inr [''Walls'']
   \<and> map_sum id (\<lambda>d. map item_label (missing_from_model_group (groups d)))
     (snd (view_category_data conn0 (always (ok_response category_counts_data))
        [walls_row, roofs_row])) = Inr [''Roofs'']
   \<and> map_sum id (\<lambda>d. map item_label (missing_from_contract_group (groups d)))
     (snd (view_category_data conn0 (always (ok_response category_counts_data))
        [walls_row, roofs_row])) = Inr [''Doors'']
   \<and> map_sum id (\<lambda>d. map item_label (not_applicable_group (groups d)))
     (snd (view_category_data conn0 (always (ok_response category_counts_data))
        [walls_row, roofs_row])) =
     Inr [''Structural Framing'', ''Structural Columns'', ''Structural Foundations'',
          ''Floors'', ''Ceilings'', ''Windows'', ''Stairs'', ''Railings'', ''Curtain Panels'',
          ''Curtain Wall Mullions'', ''Furniture'', ''Mechanical Equipment'',
          ''Plumbing Fixtures'', ''Lighting Fixtures'', ''Electrical Equipment'', ''Ducts'',
          ''Pipes'']
   \<and> map_sum id (map (\<lambda>r. (row_category r, row_text r)))
     (snd (view_category_summary conn0 (always (ok_response category_counts_data))
        [walls_row, roofs_row])) =
     Inr [(''Structural Framing'', ''Not in contract, not in model''),
          (''Structural Columns'', ''Not in contract, not in model''),
          (''Structural Foundations'', ''Not in contract, not in model''),
          (''Walls'', ''Present in contract and model''),
          (''Floors'', ''Not in contract, not in model''),
          (''Roofs'', ''In contract but not in model''),
          (''Ceilings'', ''Not in contract, not in model''),
          (''Doors'', ''Missing in the contract''),
          (''Windows'', ''Not in contract, not in model''),
          (''Stairs'', ''Not in contract, not in model''),
          (''Railings'', ''Not in contract, not in model''),
          (''Curtain Panels'', ''Not in contract, not in model''),
          (''Curtain Wall Mullions'', ''Not in contract, not in model''),
          (''Furniture'', ''Not in contract, not in model''),
          (''Mechanical Equipment'', ''Not in contract, not in model''),
          (''Plumbing Fixtures'', ''Not in contract, not in model''),
          (''Lighting Fixtures'', ''Not in contract, not in model''),
          (''Electrical Equipment'', ''Not in contract, not in model''),
          (''Ducts'', ''Not in contract, not in model''),
          (''Pipes'', ''Not in contract, not in model'')]"
proof -
  let ?counts = "[JStr ''Walls'' \<mapsto> JNum 7, JStr ''Doors'' \<mapsto> JNum 2, JStr ''Walls'' \<mapsto> JNum 12]"
  have ints: "counts_are_integers ?counts all_categories"
    by (simp add: counts_are_integers_def all_categories_def dict_get_def)
  have opts: "set (map category [walls_row, roofs_row]) \<subseteq> set all_categories"
    by (simp add: walls_row_def roofs_row_def all_categories_def)
  from reconciliation_classification
    [where replies = "always (ok_response category_counts_data)" and conn = conn0,
     OF sample_counts ints opts]
  show ?thesis
    by (simp add: in_contract_def in_model_def walls_row_def roofs_row_def all_categories_def)
qed

lemma py_gt_zero_raises: "py_gt_zero j = Inl e \<Longrightarrow> e = TypeError"
  by (cases j) auto

lemma count_in_model_eq:
  "count_in_model counts xs =
     (if \<forall>x \<in> set xs. \<exists>b. py_gt_zero (dict_get counts (JStr x) (JNum 0)) = Inr b
      then Inr (length (filter (\<lambda>x. py_gt_zero (dict_get counts (JStr x) (JNum 0)) = Inr True) xs))
      else Inl TypeError)"
proof (induction xs)
  case Nil
  then show ?case by simp
next
  case (Cons x xs)
  show ?case
  proof (cases "py_gt_zero (dict_get counts (JStr x) (JNum 0))")
    case (Inl e)
    then have "e = TypeError" by (rule py_gt_zero_raises)
    with Inl show ?thesis by simp
  next
    case (Inr b)
    with Cons.IH show ?thesis by simp
  qed
qed

lemma count_in_model_set:
  assumes "set xs = set ys" "distinct xs" "distinct ys"
  shows "count_in_model counts xs = count_in_model counts ys"
proof -
  let ?P = "\<lambda>x. py_gt_zero (dict_get counts (JStr x) (JNum 0)) = Inr True"
  have "length (filter ?P xs) = card ({x. ?P x} \<inter> set xs)"
    using assms(2) by (simp add: distinct_length_filter)
  also have "\<dots> = length (filter ?P ys)"
    using assms(1,3) by (simp add: distinct_length_filter)
  finally show ?thesis
    using assms(1) by (simp add: count_in_model_eq)
qed

lemma views_same_categories:
  assumes "set (map category rows') = set (map category rows)"
  shows "view_category_summary conn replies rows' = view_category_summary conn replies rows"
    and "view_category_data conn replies rows' = view_category_data conn replies rows"
    and "download_category_report conn replies rows' = download_category_report conn replies rows"
proof -
  show "view_category_summary conn replies rows' = view_category_summary conn replies rows"
    using assms by (simp add: view_category_summary_def)
  show "download_category_report conn replies rows' = download_category_report conn replies rows"
    using assms by (simp add: download_category_report_def)
  have "set (remdups (map category rows')) = set (remdups (map category rows))"
    using assms by simp
  then have "\<And>counts. count_in_model counts (remdups (map category rows')) =
      count_in_model counts (remdups (map category rows))"
    by (rule count_in_model_set) simp_all
  then show "view_category_data conn replies rows' = view_category_data conn replies rows"
    using assms by (simp add: view_category_data_def)
qed

text \<open>
  C6. The three reporting views read the user's rows through the set of their category
  names only. So a list of rows that is a permutation of another, or repeats one of its
  rows, or in any other way declares the same set of names, gives the same result in
  each view: the same classification of every category of the master list, and the same
  summary figures.
\<close>

theorem reconciliation_order_independent:
  assumes "mset rows' = mset rows
           \<or> (\<exists>r \<in> set rows. mset rows' = mset (r # rows))
           \<or> set (map category rows') = set (map category rows)"
  shows "view_category_summary conn replies rows' = view_category_summary conn replies rows
       \<and> view_category_data conn replies rows' = view_category_data conn replies rows
       \<and> download_category_report conn replies rows' = download_category_report conn replies rows"
proof -
  have "set (map category rows') = set (map category rows)"
  proof -
    consider (perm) "mset rows' = mset rows"
      | (dup) r where "r \<in> set rows" "mset rows' = mset (r # rows)"
      | (same) "set (map category rows') = set (map category rows)"
      using assms by blast
    then show ?thesis
    proof cases
      case perm
      then have "set rows' = set rows" by (rule mset_eq_setD)
      then show ?thesis by simp
    next
      case dup
      from dup(2) have "set rows' = set (r # rows)" by (rule mset_eq_setD)
      with dup(1) have "set rows' = set rows" by auto
      then show ?thesis by simp
    next
      case same
      then show ?thesis .
    qed
  qed
  then show ?thesis
    by (intro conjI views_same_categories)
qed

text \<open>The rows walls, roofs against the rows roofs, walls, roofs.\<close>

theorem reconciliation_order_independent_witness:
  "view_category_summary conn0 (always (ok_response category_counts_data))
     [roofs_row, walls_row, roofs_row] =
   view_category_summary conn0 (always (ok_response category_counts_data))
     [walls_row, roofs_row]
   \<and> view_category_data conn0 (always (ok_response category_counts_data))
     [roofs_row, walls_row, roofs_row] =
   view_category_data conn0 (always (ok_response category_counts_data))
     [walls_row, roofs_row]
   \<and> download_category_report conn0 (always (ok_response category_counts_data))
     [roofs_row, walls_row, roofs_row] =
   download_category_report conn0 (always (ok_response category_counts_data))
     [walls_row, roofs_row]"
proof -
  have "\<exists>r \<in> set [walls_row, roofs_row].
      mset [roofs_row, walls_row, roofs_row] = mset (r # [walls_row, roofs_row])"
    by simp
  then show ?thesis
    using reconciliation_order_independent
      [of "[roofs_row, walls_row, roofs_row]" "[walls_row, roofs_row]" conn0
          "always (ok_response category_counts_data)"]
    by blast
qed

section \<open>The counts come from one aggregate query\<close>

text \<open>
  C7. For every \<^verbatim>\<open>data\<close> from which the loops build the dict, the dict sends a name (as
  a dict key) to the count that the last entry with that name and a non-empty value
  reports, and holds nothing else. Each of the three views sends one request, the
  aggregate query, and its result depends on the API through the dict built from the
  reply to that request only: two sequences of replies that give the same dict (or the
  same exception) at the first reply give the same result, whatever else they hold.
\<close>

theorem counts_from_single_query:
  "(model_category_counts data = Inr counts \<longrightarrow>
      (\<forall>k. counts k = last_count (reported_entries data) k))
   \<and> fst (view_category_summary conn replies rows) = [used_categories_request conn]
   \<and> fst (view_category_data conn replies rows) = [used_categories_request conn]
   \<and> fst (download_category_report conn replies rows) = [used_categories_request conn]
   \<and> (fetch_category_counts (replies 0) = fetch_category_counts (replies' 0) \<longrightarrow>
        snd (view_category_summary conn replies rows) =
          snd (view_category_summary conn' replies' rows) \<and>
        snd (view_category_data conn replies rows) =
          snd (view_category_data conn' replies' rows) \<and>
        snd (download_category_report conn replies rows) =
          snd (download_category_report conn' replies' rows))"
proof (intro conjI impI allI)
  fix k
  assume "model_category_counts data = Inr counts"
  then show "counts k = last_count (reported_entries data) k"
    by (rule model_category_counts_last)
next
  show "fst (view_category_summary conn replies rows) = [used_categories_request conn]"
    by (simp add: view_category_summary_def)
  show "fst (view_category_data conn replies rows) = [used_categories_request conn]"
    by (simp add: view_category_data_def)
  show "fst (download_category_report conn replies rows) = [used_categories_request conn]"
    by (simp add: download_category_report_def)
next
  assume same: "fetch_category_counts (replies 0) = fetch_category_counts (replies' 0)"
  then show "snd (view_category_summary conn replies rows) =
      snd (view_category_summary conn' replies' rows)"
    by (simp add: view_category_summary_def)
  from same show "snd (view_category_data conn replies rows) =
      snd (view_category_data conn' replies' rows)"
    by (simp add: view_category_data_def)
  from same show "snd (download_category_report conn replies rows) =
      snd (download_category_report conn' replies' rows)"
    by (simp add: download_category_report_def)
qed

lemma sample_model_counts:
  "model_category_counts category_counts_data =
     Inr [JStr ''Walls'' \<mapsto> JNum 7, JStr ''Doors'' \<mapsto> JNum 2, JStr ''Walls'' \<mapsto> JNum 12]"
  by (simp add: category_counts_data_def model_category_counts_def py_or_def py_setitem_def)

lemma sample_entries:
  "reported_entries category_counts_data =
     [JObj [(''value'', JStr ''Walls''), (''count'', JNum 7)],
      JObj [(''value'', JStr ''Doors''), (''count'', JNum 2)],
      JObj [(''value'', JStr []), (''count'', JNum 5)],
      JObj [(''value'', JStr ''Walls''), (''count'', JNum 12)]]"
  by (simp add: category_counts_data_def reported_entries_def values_of_def py_or_def)

text \<open>
  The dict of the sample response, and the summary view against two APIs that agree on the
  first reply only.
\<close>

theorem counts_from_single_query_witness:
  "map_sum id (\<lambda>counts. (counts (JStr ''Walls''), counts (JStr ''Doors''), counts (JStr ''Roofs'')))
     (model_category_counts category_counts_data) = Inr (Some (JNum 12), Some (JNum 2), None)
   \<and> snd (view_category_summary conn0 (always (ok_response category_counts_data)) [walls_row]) =
     snd (view_category_summary conn0 (replies_ab(0 := ok_response category_counts_data)) [walls_row])"
proof -
  let ?counts = "[JStr ''Walls'' \<mapsto> JNum 7, JStr ''Doors'' \<mapsto> JNum 2, JStr ''Walls'' \<mapsto> JNum 12]"
  have same: "fetch_category_counts (always (ok_response category_counts_data) 0) =
      fetch_category_counts ((replies_ab(0 := ok_response category_counts_data)) 0)"
    by (simp add: always_def)
  from counts_from_single_query
    [where data = category_counts_data and counts = ?counts
       and replies = "always (ok_response category_counts_data)"
       and replies' = "replies_ab(0 := ok_response category_counts_data)"
       and conn = conn0 and conn' = conn0 and rows = "[walls_row]"]
    sample_model_counts same
  have "(\<forall>k. ?counts k = last_count (reported_entries category_counts_data) k)
     \<and> snd (view_category_summary conn0 (always (ok_response category_counts_data)) [walls_row]) =
       snd (view_category_summary conn0 (replies_ab(0 := ok_response category_counts_data)) [walls_row])"
    by blast
  then show ?thesis
    by (simp add: sample_model_counts sample_entries entry_name_def entry_count_def)
qed

lemma last_count_dom:
  "last_count vs k \<noteq> None \<longleftrightarrow>
     (\<exists>v \<in> set vs. truthy (entry_name v) \<and> dict_key (entry_name v) = k)"
  by (induction vs) (auto split: option.splits)

lemma last_count_last:
  assumes "truthy (entry_name v)"
    and "\<forall>y \<in> set ys. truthy (entry_name y) \<longrightarrow> dict_key (entry_name y) \<noteq> dict_key (entry_name v)"
  shows "last_count (xs @ v # ys) (dict_key (entry_name v)) = Some (entry_count v)"
proof -
  have "last_count ys (dict_key (entry_name v)) = None"
    using assms(2) last_count_dom [of ys "dict_key (entry_name v)"] by auto
  with assms(1) show ?thesis
    by (simp add: last_count_append)
qed

text \<open>
  C8. In the dict built from an aggregate response, no key is an empty name: an entry
  whose \<^verbatim>\<open>value\<close> is the empty string, is null or is missing (the default is the empty
  string) adds nothing, and the keys are the non-empty names the entries report. When
  several entries report one name, the dict holds the count of the last of them: an
  entry with no later entry of the same name decides the count, whatever came before.
  The three reporting views, \<^verbatim>\<open>download_category_report\<close> among them, build the dict
  with these same loops.
\<close>

theorem empty_names_excluded_last_count_wins:
  assumes "model_category_counts data = Inr counts"
  shows "(\<forall>k. \<not> truthy k \<longrightarrow> counts k = None)
    \<and> dom counts =
        dict_key ` entry_name ` {v \<in> set (reported_entries data). truthy (entry_name v)}
    \<and> (\<forall>xs v ys. reported_entries data = xs @ v # ys \<and> truthy (entry_name v) \<and>
          (\<forall>y \<in> set ys. truthy (entry_name y) \<longrightarrow>
             dict_key (entry_name y) \<noteq> dict_key (entry_name v)) \<longrightarrow>
          counts (dict_key (entry_name v)) = Some (entry_count v))"
proof (intro conjI allI impI)
  fix k
  assume "\<not> truthy k"
  then have "last_count (reported_entries data) k = None"
    using last_count_truthy [of "reported_entries data" k] by (cases "last_count (reported_entries data) k") auto
  then show "counts k = None"
    using model_category_counts_last [OF assms, of k] by simp
next
  have "\<And>k. k \<in> dom counts \<longleftrightarrow>
      k \<in> dict_key ` entry_name ` {v \<in> set (reported_entries data). truthy (entry_name v)}"
    using model_category_counts_last [OF assms] last_count_dom [of "reported_entries data"]
    by (auto simp: dom_def)
  then show "dom counts =
      dict_key ` entry_name ` {v \<in> set (reported_entries data). truthy (entry_name v)}"
    by blast
next
  fix xs v ys
  assume h: "reported_entries data = xs @ v # ys \<and> truthy (entry_name v) \<and>
      (\<forall>y \<in> set ys. truthy (entry_name y) \<longrightarrow>
         dict_key (entry_name y) \<noteq> dict_key (entry_name v))"
  then have "last_count (xs @ v # ys) (dict_key (entry_name v)) = Some (entry_count v)"
    by (intro last_count_last) simp_all
  with h show "counts (dict_key (entry_name v)) = Some (entry_count v)"
    using model_category_counts_last [OF assms, of "dict_key (entry_name v)"] by simp
qed


text \<open>
  In the sample response walls are reported twice, with 7 and then 12, and one entry has
  an empty name.
\<close>

theorem empty_names_excluded_last_count_wins_witness:
  "map_sum id (\<lambda>counts. (counts (JStr []), counts JNull, counts (JStr ''Walls'')))
     (model_category_counts category_counts_data) = Inr (None, None, Some (JNum 12))"
proof -
  let ?counts = "[JStr ''Walls'' \<mapsto> JNum 7, JStr ''Doors'' \<mapsto> JNum 2, JStr ''Walls'' \<mapsto> JNum 12]"
  let ?v = "JObj [(''value'', JStr ''Walls''), (''count'', JNum 12)]"
  let ?xs = "[JObj [(''value'', JStr ''Walls''), (''count'', JNum 7)],
      JObj [(''value'', JStr ''Doors''), (''count'', JNum 2)],
      JObj [(''value'', JStr []), (''count'', JNum 5)]]"
  note inst = empty_names_excluded_last_count_wins [OF sample_model_counts]
  note excl = inst [THEN conjunct1, rule_format]
  note last = inst [THEN conjunct2, THEN conjunct2, rule_format, of ?xs ?v "[]"]
  have v: "truthy (entry_name ?v)" "dict_key (entry_name ?v) = JStr ''Walls''"
    "entry_count ?v = JNum 12"
    by (simp_all add: entry_name_def entry_count_def)
  have "reported_entries category_counts_data = ?xs @ ?v # []"
    by (simp add: sample_entries)
  with v(1) have "?counts (dict_key (entry_name ?v)) = Some (entry_count ?v)"
    by (intro last) simp
  with v have walls: "?counts (JStr ''Walls'') = Some (JNum 12)"
    by simp
  have "?counts (JStr []) = None" "?counts JNull = None"
    by (rule excl, simp)+
  with walls show ?thesis
    by (simp only: sample_model_counts map_sum.simps)
qed

section \<open>One pass of a pagination loop\<close>

lemma fetched_page_Some:
  "fetched_page r = Some (elements, c) \<longleftrightarrow>
     (\<exists>data block. execute_graphql r = Inr data \<and> page_block data = Inr block \<and>
        page_elements block = Inr elements \<and> new_cursor_of block = Inr c)"
  by (auto simp: fetched_page_def bind_exn_eq_Inr split: sum.splits)

lemma fi_body_page:
  assumes "fetched_page r = Some (elements, new_cursor)"
    and "fi_page category_name elements acc = Inr acc'"
  shows "fi_body category_name cursor acc r =
      Inr (acc', if stop_condition new_cursor cursor elements then Break else Continue new_cursor)"
  using assms by (auto simp: fetched_page_Some fi_body_def)

lemma fi_body_Inr:
  assumes "fi_body category_name cursor acc r = Inr (acc', out)"
  shows "\<exists>elements new_cursor. fetched_page r = Some (elements, new_cursor) \<and>
      fi_page category_name elements acc = Inr acc' \<and>
      out = (if stop_condition new_cursor cursor elements then Break else Continue new_cursor)"
proof -
  from assms have "\<exists>data. execute_graphql r = Inr data \<and>
      (\<exists>block. page_block data = Inr block \<and>
      (\<exists>elements. page_elements block = Inr elements \<and>
      (\<exists>a. fi_page category_name elements acc = Inr a \<and>
      (\<exists>new_cursor. new_cursor_of block = Inr new_cursor \<and>
         Inr (a, if stop_condition new_cursor cursor elements then Break
                 else Continue new_cursor) = (Inr (acc', out) :: exn + family_instance list \<times> outcome)))))"
    by (simp only: fi_body_def bind_exn_eq_Inr)
  then obtain data block elements new_cursor where
    "execute_graphql r = Inr data" "page_block data = Inr block"
    "page_elements block = Inr elements" "fi_page category_name elements acc = Inr acc'"
    "new_cursor_of block = Inr new_cursor"
    "(if stop_condition new_cursor cursor elements then Break else Continue new_cursor) = out"
    by (elim exE conjE) (simp only: sum.inject prod.inject)
  then have "fetched_page r = Some (elements, new_cursor) \<and>
      fi_page category_name elements acc = Inr acc' \<and>
      out = (if stop_condition new_cursor cursor elements then Break else Continue new_cursor)"
    by (auto simp: fetched_page_Some)
  then show ?thesis by blast
qed

lemma cc_try_page:
  assumes "fetched_page r = Some (elements, new_cursor)"
    and "cc_page color_hex elements acc = (acc', None)"
  shows "cc_try color_hex cursor acc r =
      (acc', if stop_condition new_cursor cursor elements then Break else Continue new_cursor)"
  using assms by (auto simp: fetched_page_Some cc_try_def)

lemma cc_try_no_raise:
  assumes run: "cc_try color_hex cursor acc r = (acc', out)" and ok: "\<forall>e. out \<noteq> Raise e"
  shows "\<exists>elements new_cursor. fetched_page r = Some (elements, new_cursor) \<and>
      cc_page color_hex elements acc = (acc', None) \<and>
      out = (if stop_condition new_cursor cursor elements then Break else Continue new_cursor)"
proof -
  let ?pre = "bind_exn (execute_graphql r) (\<lambda>data.
           bind_exn (page_block data) (\<lambda>block.
           bind_exn (page_elements block) (\<lambda>elements. Inr (block, elements))))"
  show ?thesis
  proof (cases ?pre)
    case (Inl e)
    with run have "out = Raise e" by (simp add: cc_try_def)
    with ok show ?thesis by simp
  next
    case (Inr be)
    obtain block elements where be: "be = (block, elements)" by (cases be)
    from Inr be have "\<exists>data. execute_graphql r = Inr data \<and>
        (\<exists>b. page_block data = Inr b \<and>
        (\<exists>es. page_elements b = Inr es \<and>
           (Inr (b, es) :: exn + json \<times> json list) = Inr (block, elements)))"
      by (simp only: bind_exn_eq_Inr)
    then obtain data where pre: "execute_graphql r = Inr data" "page_block data = Inr block"
      "page_elements block = Inr elements"
      by (elim exE conjE) (simp only: sum.inject prod.inject)
    obtain acc1 x where pg: "cc_page color_hex elements acc = (acc1, x)"
      by (cases "cc_page color_hex elements acc")
    show ?thesis
    proof (cases x)
      case (Some e)
      with run Inr be pg have "out = Raise e" by (simp add: cc_try_def)
      with ok show ?thesis by simp
    next
      case None
      show ?thesis
      proof (cases "new_cursor_of block")
        case (Inl e)
        with run Inr be pg None have "out = Raise e" by (simp add: cc_try_def)
        with ok show ?thesis by simp
      next
        case c: (Inr new_cursor)
        with run Inr be pg None have "acc1 = acc'"
          "(if stop_condition new_cursor cursor elements then Break else Continue new_cursor) = out"
          by (simp_all add: cc_try_def)
        with pre c pg None have "fetched_page r = Some (elements, new_cursor) \<and>
            cc_page color_hex elements acc = (acc', None) \<and>
            out = (if stop_condition new_cursor cursor elements then Break else Continue new_cursor)"
          by (auto simp: fetched_page_Some)
        then show ?thesis by blast
      qed
    qed
  qed
qed

lemma fi_page_map:
  "fi_page category_name es acc = Inr acc' \<Longrightarrow>
   \<exists>recs. acc' = acc @ recs \<and> map Inr recs = map (fi_element category_name) es"
proof (induction es arbitrary: acc)
  case Nil
  then show ?case by simp
next
  case (Cons e es)
  from Cons.prems obtain inst where i: "fi_element category_name e = Inr inst"
    and r: "fi_page category_name es (acc @ [inst]) = Inr acc'"
    by (auto simp: bind_exn_eq_Inr)
  from Cons.IH [OF r] obtain recs where
    "acc' = (acc @ [inst]) @ recs" "map Inr recs = map (fi_element category_name) es"
    by blast
  with i have "acc' = acc @ (inst # recs) \<and>
      map Inr (inst # recs) = map (fi_element category_name) (e # es)"
    by simp
  then show ?case by blast
qed

lemma cc_page_None:
  "cc_page color_hex es acc = (acc', None) \<Longrightarrow>
   acc' = acc @ map (\<lambda>e. (external_id_of e, color_hex)) (filter (\<lambda>e. truthy (external_id_of e)) es)"
proof (induction es arbitrary: acc)
  case Nil
  then show ?case by simp
next
  case (Cons e es)
  show ?case
  proof (cases "cc_external_id e")
    case (Inl err)
    with Cons.prems show ?thesis by simp
  next
    case (Inr ext)
    then have ext: "external_id_of e = ext" by (simp add: external_id_of_def)
    show ?thesis
    proof (cases "truthy ext")
      case False
      with Cons.prems Inr have "cc_page color_hex es acc = (acc', None)" by simp
      then have "acc' = acc @ map (\<lambda>e. (external_id_of e, color_hex))
          (filter (\<lambda>e. truthy (external_id_of e)) es)"
        by (rule Cons.IH)
      with False ext show ?thesis by simp
    next
      case True
      show ?thesis
      proof (cases "hashable ext")
        case False
        with Cons.prems Inr True show ?thesis by simp
      next
        case h: True
        with Cons.prems Inr True
        have "cc_page color_hex es (acc @ [(ext, color_hex)]) = (acc', None)" by simp
        then have "acc' = (acc @ [(ext, color_hex)]) @ map (\<lambda>e. (external_id_of e, color_hex))
            (filter (\<lambda>e. truthy (external_id_of e)) es)"
          by (rule Cons.IH)
        with True ext show ?thesis by simp
      qed
    qed
  qed
qed

lemma cc_page_prefix:
  "cc_page color_hex es acc = (acc', x) \<Longrightarrow>
   \<exists>new. acc' = acc @ new \<and>
     (\<forall>p \<in> set new. snd p = color_hex \<and> truthy (fst p) \<and>
        (\<exists>e \<in> set es. cc_external_id e = Inr (fst p)))"
proof (induction es arbitrary: acc)
  case Nil
  then show ?case by simp
next
  case (Cons e es)
  have stay: "acc' = acc \<Longrightarrow> ?case" by simp
  have skip: "cc_page color_hex es acc = (acc', x) \<Longrightarrow> ?case"
  proof -
    assume "cc_page color_hex es acc = (acc', x)"
    from Cons.IH [OF this] obtain new where
      "acc' = acc @ new" "\<forall>p \<in> set new. snd p = color_hex \<and> truthy (fst p) \<and>
        (\<exists>e \<in> set es. cc_external_id e = Inr (fst p))"
      by blast
    then have "acc' = acc @ new \<and> (\<forall>p \<in> set new. snd p = color_hex \<and> truthy (fst p) \<and>
        (\<exists>e' \<in> set (e # es). cc_external_id e' = Inr (fst p)))"
      by simp
    then show ?case by (rule exI)
  qed
  show ?case
  proof (cases "cc_external_id e")
    case (Inl err)
    with Cons.prems have "acc' = acc" by simp
    then show ?thesis by (rule stay)
  next
    case (Inr ext)
    show ?thesis
    proof (cases "truthy ext")
      case False
      with Cons.prems Inr have "cc_page color_hex es acc = (acc', x)" by simp
      then show ?thesis by (rule skip)
    next
      case True
      show ?thesis
      proof (cases "hashable ext")
        case False
        with Cons.prems Inr True have "acc' = acc" by simp
        then show ?thesis by (rule stay)
      next
        case h: True
        with Cons.prems Inr True
        have "cc_page color_hex es (acc @ [(ext, color_hex)]) = (acc', x)" by simp
        from Cons.IH [OF this] obtain new where
          n: "acc' = (acc @ [(ext, color_hex)]) @ new"
            "\<forall>p \<in> set new. snd p = color_hex \<and> truthy (fst p) \<and>
               (\<exists>e \<in> set es. cc_external_id e = Inr (fst p))"
          by blast
        from n(1) have 1: "acc' = acc @ ((ext, color_hex) # new)" by simp
        from n(2) True Inr
        have 2: "\<forall>p \<in> set ((ext, color_hex) # new). snd p = color_hex \<and> truthy (fst p) \<and>
             (\<exists>e' \<in> set (e # es). cc_external_id e' = Inr (fst p))"
          by simp
        from 1 2 show ?thesis by blast
      qed
    qed
  qed
qed

lemma fi_iteration_page:
  assumes "fetched_page (replies (length (sent s))) = Some (elements, new_cursor)"
    and "fi_page category_name elements (all_instances s) = Inr acc"
  shows "fi_iteration replies conn category_name cursor s =
      (s\<lparr>sent := sent s @ [page_request FamilyInstances conn category_name cursor],
         all_instances := acc\<rparr>,
       if stop_condition new_cursor cursor elements then Break else Continue new_cursor)"
  using fi_body_page [OF assms, of cursor] by (simp add: fi_iteration_def)

lemma fi_iteration_sent:
  "sent (fst (fi_iteration replies conn category_name cursor s)) =
     sent s @ [page_request FamilyInstances conn category_name cursor]"
  by (simp add: fi_iteration_def Let_def split: sum.splits prod.splits)

lemma fi_iteration_no_raise:
  assumes "fi_iteration replies conn category_name cursor s = (s', out)" and "\<forall>e. out \<noteq> Raise e"
  shows "\<exists>elements new_cursor.
      fetched_page (replies (length (sent s))) = Some (elements, new_cursor) \<and>
      fi_page category_name elements (all_instances s) = Inr (all_instances s') \<and>
      out = (if stop_condition new_cursor cursor elements then Break else Continue new_cursor)"
proof (cases "fi_body category_name cursor (all_instances s) (replies (length (sent s)))")
  case (Inl e)
  with assms(1) have "out = Raise e" by (simp add: fi_iteration_def Let_def)
  with assms(2) show ?thesis by simp
next
  case (Inr p)
  obtain acc' out' where p: "p = (acc', out')" by (cases p)
  with Inr assms(1) have "all_instances s' = acc'" "out = out'"
    by (auto simp: fi_iteration_def Let_def)
  with Inr p show ?thesis using fi_body_Inr by simp
qed

lemma cc_iteration_page:
  assumes "fetched_page (replies (length (sent t))) = Some (elements, new_cursor)"
    and "cc_page (hex (color row)) elements (external_ids_with_colors t) = (ids, None)"
  shows "cc_iteration replies conn row cursor t =
      (t\<lparr>sent := sent t @ [page_request CategoryElements conn (category row) cursor],
         external_ids_with_colors := ids\<rparr>,
       if stop_condition new_cursor cursor elements then Break else Continue new_cursor)"
  using cc_try_page [OF assms, of cursor] by (simp add: cc_iteration_def)

lemma cc_iteration_sent:
  "sent (fst (cc_iteration replies conn row cursor t)) =
     sent t @ [page_request CategoryElements conn (category row) cursor]"
  by (simp add: cc_iteration_def Let_def split: prod.splits outcome.splits)

lemma cc_iteration_never_raises:
  "snd (cc_iteration replies conn row cursor t) \<noteq> Raise e"
  by (simp add: cc_iteration_def Let_def split: prod.splits outcome.splits)

lemma cc_iteration_warnings:
  "warnings (fst (cc_iteration replies conn row cursor t)) = warnings t \<or>
   (\<exists>e. warnings (fst (cc_iteration replies conn row cursor t)) = warnings t @ [(category row, e)])"
  by (simp add: cc_iteration_def Let_def split: prod.splits outcome.splits)

lemma cc_iteration_quiet:
  assumes "cc_iteration replies conn row cursor t = (t', out)" and "warnings t' = warnings t"
  shows "\<exists>elements new_cursor.
      fetched_page (replies (length (sent t))) = Some (elements, new_cursor) \<and>
      cc_page (hex (color row)) elements (external_ids_with_colors t) =
        (external_ids_with_colors t', None) \<and>
      out = (if stop_condition new_cursor cursor elements then Break else Continue new_cursor)"
proof -
  obtain ids out' where tr: "cc_try (hex (color row)) cursor (external_ids_with_colors t)
      (replies (length (sent t))) = (ids, out')"
    by (cases "cc_try (hex (color row)) cursor (external_ids_with_colors t)
      (replies (length (sent t)))")
  have nr: "\<forall>e. out' \<noteq> Raise e"
  proof (intro allI notI)
    fix e assume "out' = Raise e"
    with tr assms(1) have "warnings t' = warnings t @ [(category row, e)]"
      by (auto simp: cc_iteration_def Let_def)
    with assms(2) show False by simp
  qed
  with tr assms(1) have "external_ids_with_colors t' = ids" "out = out'"
    by (cases out'; auto simp: cc_iteration_def Let_def)+
  with cc_try_no_raise [OF tr nr] show ?thesis by simp
qed

section \<open>The sample pages, evaluated\<close>

lemma fetched_page_ok:
  "fetched_page (ok_response (page_data elements cursor)) = Some (elements, cursor)"
  by (simp add: fetched_page_def ok_response_def page_data_def execute_graphql_def
      page_block_def page_elements_def new_cursor_of_def py_or_def)

lemma fi_element_wall:
  "fi_element c wall_element =
     Inr \<lparr>inst_category = c, family_name = JStr ''Basic Wall'',
          type_name = JStr ''Generic 200'', element_name = JStr ''Wall 1''\<rparr>"
  by (simp add: fi_element_def wall_element_def py_or_def)

lemma fi_element_unnamed:
  "fi_element c unnamed_element =
     Inr \<lparr>inst_category = c, family_name = JStr ''Unknown'',
          type_name = JStr ''Unknown'', element_name = JStr []\<rparr>"
  by (simp add: fi_element_def unnamed_element_def py_or_def)

lemma cc_external_id_wall: "cc_external_id wall_element = Inr (JStr ''x1'')"
  by (simp add: cc_external_id_def wall_element_def)

lemma cc_external_id_unnamed: "cc_external_id unnamed_element = Inr JNull"
  by (simp add: cc_external_id_def unnamed_element_def)

lemma two_pages_fi:
  "snd (passes (Suc (Suc 0)) (fi_iteration two_pages conn0 ''Walls'') JNull fi0) = Break"
  "map element_name
     (all_instances (fst (passes (Suc (Suc 0)) (fi_iteration two_pages conn0 ''Walls'') JNull fi0))) =
   [JStr ''Wall 1'', JStr []]"
proof -
  let ?s1 = "fi0\<lparr>sent := sent fi0 @ [page_request FamilyInstances conn0 ''Walls'' JNull],
      all_instances := [\<lparr>inst_category = ''Walls'', family_name = JStr ''Basic Wall'',
          type_name = JStr ''Generic 200'', element_name = JStr ''Wall 1''\<rparr>]\<rparr>"
  have 1: "fi_iteration two_pages conn0 ''Walls'' JNull fi0 = (?s1, Continue (JStr ''A''))"
    using fi_iteration_page [of two_pages fi0 "[wall_element]" "JStr ''A''" "''Walls''" _ conn0 JNull]
    by (simp add: fi0_def two_pages_def fetched_page_ok fi_element_wall stop_condition_def)
  have 2: "\<exists>s2. fi_iteration two_pages conn0 ''Walls'' (JStr ''A'') ?s1 = (s2, Break) \<and>
      map element_name (all_instances s2) = [JStr ''Wall 1'', JStr []]"
    using fi_iteration_page [of two_pages ?s1 "[unnamed_element]" JNull "''Walls''" _ conn0 "JStr ''A''"]
    by (simp add: fi0_def two_pages_def no_id_page_def fetched_page_ok fi_element_unnamed
        stop_condition_def)
  from 1 2 show "snd (passes (Suc (Suc 0)) (fi_iteration two_pages conn0 ''Walls'') JNull fi0) = Break"
    by auto
  from 1 2 show "map element_name
     (all_instances (fst (passes (Suc (Suc 0)) (fi_iteration two_pages conn0 ''Walls'') JNull fi0))) =
   [JStr ''Wall 1'', JStr []]"
    by auto
qed

lemma two_pages_cc:
  "snd (passes (Suc (Suc 0)) (cc_iteration two_pages conn0 walls_row) JNull cc0) = Break"
  "external_ids_with_colors
     (fst (passes (Suc (Suc 0)) (cc_iteration two_pages conn0 walls_row) JNull cc0)) =
   [(JStr ''x1'', ''#00ff00'')]"
  "warnings (fst (passes (Suc (Suc 0)) (cc_iteration two_pages conn0 walls_row) JNull cc0)) = []"
proof -
  let ?t1 = "cc0\<lparr>sent := sent cc0 @ [page_request CategoryElements conn0 (category walls_row) JNull],
      external_ids_with_colors := [(JStr ''x1'', ''#00ff00'')]\<rparr>"
  have 1: "cc_iteration two_pages conn0 walls_row JNull cc0 = (?t1, Continue (JStr ''A''))"
    using cc_iteration_page [of two_pages cc0 "[wall_element]" "JStr ''A''" walls_row _ conn0 JNull]
    by (simp add: cc0_def two_pages_def fetched_page_ok cc_external_id_wall stop_condition_def
        walls_row_def)
  have 2: "\<exists>t2. cc_iteration two_pages conn0 walls_row (JStr ''A'') ?t1 = (t2, Break) \<and>
      external_ids_with_colors t2 = [(JStr ''x1'', ''#00ff00'')] \<and> warnings t2 = []"
    using cc_iteration_page [of two_pages ?t1 "[unnamed_element]" JNull walls_row _ conn0 "JStr ''A''"]
    by (simp add: cc0_def two_pages_def no_id_page_def fetched_page_ok cc_external_id_unnamed
        stop_condition_def walls_row_def)
  from 1 2 show "snd (passes (Suc (Suc 0)) (cc_iteration two_pages conn0 walls_row) JNull cc0) = Break"
    by auto
  from 1 2 show "external_ids_with_colors
     (fst (passes (Suc (Suc 0)) (cc_iteration two_pages conn0 walls_row) JNull cc0)) =
   [(JStr ''x1'', ''#00ff00'')]"
    by auto
  from 1 2 show "warnings (fst (passes (Suc (Suc 0)) (cc_iteration two_pages conn0 walls_row) JNull cc0)) = []"
    by auto
qed

section \<open>What the loops collect\<close>

lemma fetched_elements_page:
  "fetched_page (replies i) = Some (elements, c) \<Longrightarrow> fetched_elements replies i = elements"
  by (simp add: fetched_elements_def)

lemma fi_passes_collect:
  "passes n (fi_iteration replies conn category_name) c s = (s', out) \<Longrightarrow>
   \<forall>e. out \<noteq> Raise e \<Longrightarrow>
   length (sent s) \<le> length (sent s') \<and>
   (\<exists>recs. all_instances s' = all_instances s @ recs \<and>
      map Inr recs = map (fi_element category_name)
        (concat (map (fetched_elements replies) [length (sent s) ..< length (sent s')])))"
proof (induction n arbitrary: c s)
  case 0
  then show ?case by simp
next
  case (Suc n)
  obtain s1 o1 where b: "fi_iteration replies conn category_name c s = (s1, o1)"
    by (cases "fi_iteration replies conn category_name c s")
  have len: "length (sent s1) = Suc (length (sent s))"
    using fi_iteration_sent [of replies conn category_name c s] b by simp
  have first: "\<forall>e. o1 \<noteq> Raise e \<Longrightarrow>
      \<exists>recs0. all_instances s1 = all_instances s @ recs0 \<and>
        map Inr recs0 = map (fi_element category_name) (fetched_elements replies (length (sent s)))"
  proof -
    assume "\<forall>e. o1 \<noteq> Raise e"
    from fi_iteration_no_raise [OF b this] obtain elements new_cursor where
      pg: "fetched_page (replies (length (sent s))) = Some (elements, new_cursor)"
      and fp: "fi_page category_name elements (all_instances s) = Inr (all_instances s1)"
      by blast
    from fi_page_map [OF fp] fetched_elements_page [of replies "length (sent s)", OF pg]
    show ?thesis by simp
  qed
  show ?case
  proof (cases o1)
    case (Continue c1)
    with Suc.prems(1) b have run: "passes n (fi_iteration replies conn category_name) c1 s1 = (s', out)"
      by simp
    from Suc.IH [OF run Suc.prems(2)] obtain recs1 where
      le: "length (sent s1) \<le> length (sent s')"
      and r1: "all_instances s' = all_instances s1 @ recs1"
        "map Inr recs1 = map (fi_element category_name)
           (concat (map (fetched_elements replies) [length (sent s1) ..< length (sent s')]))"
      by blast
    from first Continue obtain recs0 where
      r0: "all_instances s1 = all_instances s @ recs0"
        "map Inr recs0 = map (fi_element category_name) (fetched_elements replies (length (sent s)))"
      by auto
    from le len have upt: "[length (sent s) ..< length (sent s')] =
        length (sent s) # [length (sent s1) ..< length (sent s')]"
      by (simp add: upt_conv_Cons)
    have "all_instances s' = all_instances s @ (recs0 @ recs1) \<and>
        map Inr (recs0 @ recs1) = map (fi_element category_name)
          (concat (map (fetched_elements replies) [length (sent s) ..< length (sent s')]))"
      using r0 r1 upt by simp
    with le len show ?thesis by (intro conjI exI [of _ "recs0 @ recs1"]) simp_all
  next
    case (Raise e)
    with Suc.prems(1) b have "out = Raise e" by simp
    with Suc.prems(2) show ?thesis by simp
  next
    case Break
    with Suc.prems(1) b have eq: "s' = s1" "out = o1" by simp_all
    from first Break obtain recs0 where
      "all_instances s1 = all_instances s @ recs0"
      "map Inr recs0 = map (fi_element category_name) (fetched_elements replies (length (sent s)))"
      by auto
    with eq len show ?thesis by simp
  qed
qed

lemma cc_passes_warnings:
  "passes n (cc_iteration replies conn row) c t = (t', out) \<Longrightarrow>
   \<exists>w. warnings t' = warnings t @ w"
proof (induction n arbitrary: c t)
  case 0
  then show ?case by simp
next
  case (Suc n)
  obtain t1 o1 where b: "cc_iteration replies conn row c t = (t1, o1)"
    by (cases "cc_iteration replies conn row c t")
  from cc_iteration_warnings [of replies conn row c t] b
  obtain w1 where w1: "warnings t1 = warnings t @ w1" by auto
  show ?case
  proof (cases o1)
    case (Continue c1)
    with Suc.prems b have "passes n (cc_iteration replies conn row) c1 t1 = (t', out)" by simp
    from Suc.IH [OF this] obtain w where "warnings t' = warnings t1 @ w" by blast
    with w1 show ?thesis by simp
  next
    case (Raise e)
    with Suc.prems b w1 show ?thesis by simp
  next
    case Break
    with Suc.prems b w1 show ?thesis by simp
  qed
qed

lemma cc_passes_collect:
  "passes n (cc_iteration replies conn row) c t = (t', out) \<Longrightarrow>
   warnings t' = warnings t \<Longrightarrow>
   length (sent t) \<le> length (sent t') \<and>
   external_ids_with_colors t' = external_ids_with_colors t @
     map (\<lambda>e. (external_id_of e, hex (color row)))
       (filter (\<lambda>e. truthy (external_id_of e))
          (concat (map (fetched_elements replies) [length (sent t) ..< length (sent t')])))"
proof (induction n arbitrary: c t)
  case 0
  then show ?case by simp
next
  case (Suc n)
  obtain t1 o1 where b: "cc_iteration replies conn row c t = (t1, o1)"
    by (cases "cc_iteration replies conn row c t")
  have len: "length (sent t1) = Suc (length (sent t))"
    using cc_iteration_sent [of replies conn row c t] b by simp
  have first: "warnings t1 = warnings t \<Longrightarrow>
      external_ids_with_colors t1 = external_ids_with_colors t @
        map (\<lambda>e. (external_id_of e, hex (color row)))
          (filter (\<lambda>e. truthy (external_id_of e)) (fetched_elements replies (length (sent t))))"
  proof -
    assume "warnings t1 = warnings t"
    from cc_iteration_quiet [OF b this] obtain elements new_cursor where
      pg: "fetched_page (replies (length (sent t))) = Some (elements, new_cursor)"
      and cp: "cc_page (hex (color row)) elements (external_ids_with_colors t) =
        (external_ids_with_colors t1, None)"
      by blast
    from cc_page_None [OF cp] fetched_elements_page [of replies "length (sent t)", OF pg]
    show ?thesis by simp
  qed
  show ?case
  proof (cases o1)
    case (Continue c1)
    with Suc.prems(1) b have run: "passes n (cc_iteration replies conn row) c1 t1 = (t', out)"
      by simp
    from cc_passes_warnings [OF run] obtain w where w: "warnings t' = warnings t1 @ w" by blast
    from cc_iteration_warnings [of replies conn row c t] b
    obtain w1 where w1: "warnings t1 = warnings t @ w1" by auto
    from w w1 Suc.prems(2) have q1: "warnings t1 = warnings t" and q: "warnings t' = warnings t1"
      by simp_all
    from Suc.IH [OF run q] have
      le: "length (sent t1) \<le> length (sent t')"
      and r1: "external_ids_with_colors t' = external_ids_with_colors t1 @
        map (\<lambda>e. (external_id_of e, hex (color row)))
          (filter (\<lambda>e. truthy (external_id_of e))
             (concat (map (fetched_elements replies) [length (sent t1) ..< length (sent t')])))"
      by simp_all
    from le len have upt: "[length (sent t) ..< length (sent t')] =
        length (sent t) # [length (sent t1) ..< length (sent t')]"
      by (simp add: upt_conv_Cons)
    from first [OF q1] r1 upt le len show ?thesis by simp
  next
    case (Raise e)
    with b show ?thesis using cc_iteration_never_raises [of replies conn row c t e] by simp
  next
    case Break
    with Suc.prems b have eq: "t' = t1" by simp
    with Suc.prems(2) have "warnings t1 = warnings t" by simp
    from first [OF this] eq len show ?thesis by simp
  qed
qed

text \<open>
  C5, as the code has it. When a loop leaves by \<^verbatim>\<open>break\<close> (in the colored view: with no
  warning, so no exception was caught), the replies it fetched are those from the first
  request of the loop to the last, and the pass that breaks has processed its page like
  every pass before it. In \<^verbatim>\<open>view_family_instances\<close> the records appended are, in the
  order of the pages and of the elements in each page, one record per fetched element:
  the record the element yields. In \<^verbatim>\<open>view_colored_categories\<close> the entries appended
  are, in the same order, one entry per fetched element that has a non-empty external
  id, the id paired with the color of the row; an element without one adds nothing.
\<close>

theorem pages_collected_in_order:
  "(passes n (fi_iteration replies conn category_name) JNull s = (s', Break) \<longrightarrow>
      fi_loop replies conn category_name s = Some (s', None) \<and>
      (\<exists>recs. all_instances s' = all_instances s @ recs \<and>
         map Inr recs = map (fi_element category_name)
           (concat (map (fetched_elements replies) [length (sent s) ..< length (sent s')]))))
   \<and> (passes n (cc_iteration replies conn row) JNull t = (t', Break) \<and>
        warnings t' = warnings t \<longrightarrow>
      cc_loop replies conn row t = Some (t', None) \<and>
      external_ids_with_colors t' = external_ids_with_colors t @
        map (\<lambda>e. (external_id_of e, hex (color row)))
          (filter (\<lambda>e. truthy (external_id_of e))
             (concat (map (fetched_elements replies) [length (sent t) ..< length (sent t')]))))"
proof (intro conjI impI)
  assume run: "passes n (fi_iteration replies conn category_name) JNull s = (s', Break)"
  from passes_stop [OF run] show "fi_loop replies conn category_name s = Some (s', None)"
    by (simp add: fi_loop_def)
  from fi_passes_collect [OF run]
  show "\<exists>recs. all_instances s' = all_instances s @ recs \<and>
         map Inr recs = map (fi_element category_name)
           (concat (map (fetched_elements replies) [length (sent s) ..< length (sent s')]))"
    by simp
next
  assume h: "passes n (cc_iteration replies conn row) JNull t = (t', Break) \<and>
      warnings t' = warnings t"
  then have run: "passes n (cc_iteration replies conn row) JNull t = (t', Break)"
    and q: "warnings t' = warnings t"
    by simp_all
  from passes_stop [OF run] show "cc_loop replies conn row t = Some (t', None)"
    by (simp add: cc_loop_def)
  from cc_passes_collect [OF run q]
  show "external_ids_with_colors t' = external_ids_with_colors t @
        map (\<lambda>e. (external_id_of e, hex (color row)))
          (filter (\<lambda>e. truthy (external_id_of e))
             (concat (map (fetched_elements replies) [length (sent t) ..< length (sent t')])))"
    by simp
qed

text \<open>
  Two pages: a wall with an external id, then a last page with an element that has
  none. The family view records both elements, the colored view lists the wall only.
\<close>

theorem pages_collected_in_order_witness:
  "map_option (\<lambda>r. (map element_name (all_instances (fst r)), snd r))
     (fi_loop two_pages conn0 ''Walls'' fi0) = Some ([JStr ''Wall 1'', JStr []], None)
   \<and> map_option (\<lambda>r. (external_ids_with_colors (fst r), snd r))
     (cc_loop two_pages conn0 walls_row cc0) = Some ([(JStr ''x1'', ''#00ff00'')], None)"
proof -
  let ?s' = "fst (passes (Suc (Suc 0)) (fi_iteration two_pages conn0 ''Walls'') JNull fi0)"
  let ?t' = "fst (passes (Suc (Suc 0)) (cc_iteration two_pages conn0 walls_row) JNull cc0)"
  have fi: "passes (Suc (Suc 0)) (fi_iteration two_pages conn0 ''Walls'') JNull fi0 = (?s', Break)"
    using two_pages_fi(1) by (metis prod.collapse)
  have cc: "passes (Suc (Suc 0)) (cc_iteration two_pages conn0 walls_row) JNull cc0 = (?t', Break)"
    using two_pages_cc(1) by (metis prod.collapse)
  have quiet: "warnings ?t' = warnings cc0"
    using two_pages_cc(3) by (simp add: cc0_def)
  from pages_collected_in_order
    [of "Suc (Suc 0)" two_pages conn0 "''Walls''" fi0 ?s' walls_row cc0 ?t'] fi cc quiet
  have "fi_loop two_pages conn0 ''Walls'' fi0 = Some (?s', None)"
    and "cc_loop two_pages conn0 walls_row cc0 = Some (?t', None)"
    by blast+
  then show ?thesis
    using two_pages_fi(2) two_pages_cc(2) by simp
qed

text \<open>
  C5 as it is stated fails in the colored view: a page of one element without an
  external id is fetched, the loop ends normally, and the list is empty.
\<close>

theorem pages_collected_counterexample:
  "fetched_elements (always no_id_page) 0 = [unnamed_element]
   \<and> map_option (\<lambda>r. (external_ids_with_colors (fst r), warnings (fst r), snd r))
       (cc_loop (always no_id_page) conn0 walls_row cc0) = Some ([], [], None)"
proof -
  have pg: "fetched_page (always no_id_page (length (sent cc0))) = Some ([unnamed_element], JNull)"
    by (simp add: always_def no_id_page_def fetched_page_ok)
  have "cc_page (hex (color walls_row)) [unnamed_element] (external_ids_with_colors cc0) = ([], None)"
    by (simp add: cc_external_id_unnamed cc0_def)
  from cc_iteration_page [of "always no_id_page" cc0 _ _ walls_row, OF pg this, of conn0 JNull]
  have "passes (Suc 0) (cc_iteration (always no_id_page) conn0 walls_row) JNull cc0 =
      (cc0\<lparr>sent := sent cc0 @ [page_request CategoryElements conn0 (category walls_row) JNull],
           external_ids_with_colors := []\<rparr>, Break)"
    by (simp add: stop_condition_def)
  from passes_stop [OF this]
  have "cc_loop (always no_id_page) conn0 walls_row cc0 =
      Some (cc0\<lparr>sent := sent cc0 @ [page_request CategoryElements conn0 (category walls_row) JNull],
           external_ids_with_colors := []\<rparr>, None)"
    by (simp add: cc_loop_def)
  then show ?thesis
    by (simp add: fetched_elements_def always_def no_id_page_def fetched_page_ok cc0_def)
qed

section \<open>The rule that ends a pagination loop\<close>

lemma page_request_cursor:
  "truthy c \<Longrightarrow>
   variables (page_request q conn category_name c) =
     JObj [(''elementGroupId'', JStr (group_id conn)),
           (''rsqlFilter'', JStr (rsql_filter category_name)),
           (''pagination'', JObj [(''cursor'', c), (''limit'', JNum 100)])]"
  by (simp add: page_request_def graphql_request_def page_variables_def py_or_def limit_def)

text \<open>
  C1, as the code has it. Take a pass of either loop whose reply carries a page and whose
  elements are processed without an exception. The pass ends the loop exactly when the
  returned cursor is absent or empty (Python's \<^verbatim>\<open>not new_cursor\<close>: no cursor key, null,
  or an empty value such as the empty string), or equals the cursor of the request just
  sent, or the page has no results. In every other case the pass ends with the returned
  cursor as the current cursor, the loop runs its next pass with it, and the request of
  a pass whose cursor is not empty carries that cursor and the limit 100.
\<close>

theorem pagination_stop_rule:
  assumes "fetched_page (replies (length (sent s))) = Some (elements, new_cursor)"
    and "fetched_page (replies (length (sent t))) = Some (elements', new_cursor')"
  shows
    "(fi_page category_name elements (all_instances s) = Inr acc \<longrightarrow>
        fi_iteration replies conn category_name cursor s =
          (s\<lparr>sent := sent s @ [page_request FamilyInstances conn category_name cursor],
             all_instances := acc\<rparr>,
           if \<not> truthy new_cursor \<or> py_eq new_cursor cursor \<or> elements = [] then Break
           else Continue new_cursor))
     \<and> (cc_page (hex (color row)) elements' (external_ids_with_colors t) = (ids, None) \<longrightarrow>
        cc_iteration replies conn row cursor t =
          (t\<lparr>sent := sent t @ [page_request CategoryElements conn (category row) cursor],
             external_ids_with_colors := ids\<rparr>,
           if \<not> truthy new_cursor' \<or> py_eq new_cursor' cursor \<or> elements' = [] then Break
           else Continue new_cursor'))
     \<and> (truthy c \<longrightarrow>
        variables (page_request q conn category_name c) =
          JObj [(''elementGroupId'', JStr (group_id conn)),
                (''rsqlFilter'', JStr (rsql_filter category_name)),
                (''pagination'', JObj [(''cursor'', c), (''limit'', JNum 100)])])
     \<and> paginate body cursor u =
         (case body cursor u of
            (u', Raise e) \<Rightarrow> Some (u', Some e)
          | (u', Break) \<Rightarrow> Some (u', None)
          | (u', Continue c') \<Rightarrow> paginate body c' u')"
proof (intro conjI impI)
  assume "fi_page category_name elements (all_instances s) = Inr acc"
  from fi_iteration_page [of replies s, OF assms(1) this, of conn cursor]
  show "fi_iteration replies conn category_name cursor s =
          (s\<lparr>sent := sent s @ [page_request FamilyInstances conn category_name cursor],
             all_instances := acc\<rparr>,
           if \<not> truthy new_cursor \<or> py_eq new_cursor cursor \<or> elements = [] then Break
           else Continue new_cursor)"
    by (simp add: stop_condition_def)
next
  assume "cc_page (hex (color row)) elements' (external_ids_with_colors t) = (ids, None)"
  from cc_iteration_page [of replies t, OF assms(2) this, of conn cursor]
  show "cc_iteration replies conn row cursor t =
          (t\<lparr>sent := sent t @ [page_request CategoryElements conn (category row) cursor],
             external_ids_with_colors := ids\<rparr>,
           if \<not> truthy new_cursor' \<or> py_eq new_cursor' cursor \<or> elements' = [] then Break
           else Continue new_cursor')"
    by (simp add: stop_condition_def)
next
  assume "truthy c"
  then show "variables (page_request q conn category_name c) =
          JObj [(''elementGroupId'', JStr (group_id conn)),
                (''rsqlFilter'', JStr (rsql_filter category_name)),
                (''pagination'', JObj [(''cursor'', c), (''limit'', JNum 100)])]"
    by (rule page_request_cursor)
next
  show "paginate body cursor u =
         (case body cursor u of
            (u', Raise e) \<Rightarrow> Some (u', Some e)
          | (u', Break) \<Rightarrow> Some (u', None)
          | (u', Continue c') \<Rightarrow> paginate body c' u')"
    by (rule paginate.simps)
qed

text \<open>The first pass over the two sample pages, in both loops, and the request after it.\<close>

theorem pagination_stop_rule_witness:
  "snd (fi_iteration two_pages conn0 ''Walls'' JNull fi0) = Continue (JStr ''A'')
   \<and> snd (cc_iteration two_pages conn0 walls_row JNull cc0) = Continue (JStr ''A'')
   \<and> variables (page_request FamilyInstances conn0 ''Walls'' (JStr ''A'')) =
       JObj [(''elementGroupId'', JStr ''g0''),
             (''rsqlFilter'', JStr (rsql_filter ''Walls'')),
             (''pagination'', JObj [(''cursor'', JStr ''A''), (''limit'', JNum 100)])]"
proof -
  have pg: "fetched_page (two_pages (length (sent fi0))) = Some ([wall_element], JStr ''A'')"
    "fetched_page (two_pages (length (sent cc0))) = Some ([wall_element], JStr ''A'')"
    by (simp_all add: fi0_def cc0_def two_pages_def fetched_page_ok)
  have fp: "fi_page ''Walls'' [wall_element] (all_instances fi0) =
      Inr [\<lparr>inst_category = ''Walls'', family_name = JStr ''Basic Wall'',
            type_name = JStr ''Generic 200'', element_name = JStr ''Wall 1''\<rparr>]"
    by (simp add: fi_element_wall fi0_def)
  have cp: "cc_page (hex (color walls_row)) [wall_element] (external_ids_with_colors cc0) =
      ([(JStr ''x1'', ''#00ff00'')], None)"
    by (simp add: cc_external_id_wall cc0_def walls_row_def)
  have tr: "truthy (JStr ''A'')" by simp
  note inst = pagination_stop_rule
    [where replies = two_pages and s = fi0 and t = cc0 and category_name = "''Walls''"
       and conn = conn0 and cursor = JNull and row = walls_row and c = "JStr ''A''"
       and q = FamilyInstances, OF pg]
  from inst [THEN conjunct1, rule_format, OF fp]
  have 1: "snd (fi_iteration two_pages conn0 ''Walls'' JNull fi0) = Continue (JStr ''A'')"
    by simp
  from inst [THEN conjunct2, THEN conjunct1, rule_format, OF cp]
  have 2: "snd (cc_iteration two_pages conn0 walls_row JNull cc0) = Continue (JStr ''A'')"
    by simp
  from inst [THEN conjunct2, THEN conjunct2, THEN conjunct1, rule_format, OF tr]
  have 3: "variables (page_request FamilyInstances conn0 ''Walls'' (JStr ''A'')) =
       JObj [(''elementGroupId'', JStr ''g0''),
             (''rsqlFilter'', JStr (rsql_filter ''Walls'')),
             (''pagination'', JObj [(''cursor'', JStr ''A''), (''limit'', JNum 100)])]"
    by (simp add: conn0_def)
  from 1 2 3 show ?thesis by (intro conjI)
qed

text \<open>
  C1 as it is stated fails at a page of one element whose cursor is the empty string,
  in answer to the first request: the cursor is there and is not the preceding one
  (there is none), the page is not empty, and both loops stop.
\<close>

theorem pagination_stop_counterexample:
  "spec_cursor empty_cursor_page = Some (JStr [])
   \<and> spec_count empty_cursor_page = 1
   \<and> \<not> spec_stops (spec_cursor empty_cursor_page) None (spec_count empty_cursor_page)
   \<and> snd (fi_iteration (always empty_cursor_page) conn0 ''Walls'' JNull fi0) = Break
   \<and> snd (cc_iteration (always empty_cursor_page) conn0 walls_row JNull cc0) = Break"
proof -
  have pg: "fetched_page empty_cursor_page = Some ([wall_element], JStr [])"
    by (simp add: empty_cursor_page_def fetched_page_ok)
  have fp: "fi_page ''Walls'' [wall_element] (all_instances fi0) =
      Inr [\<lparr>inst_category = ''Walls'', family_name = JStr ''Basic Wall'',
            type_name = JStr ''Generic 200'', element_name = JStr ''Wall 1''\<rparr>]"
    by (simp add: fi_element_wall fi0_def)
  have cp: "cc_page (hex (color walls_row)) [wall_element] (external_ids_with_colors cc0) =
      ([(JStr ''x1'', ''#00ff00'')], None)"
    by (simp add: cc_external_id_wall cc0_def walls_row_def)
  have "snd (fi_iteration (always empty_cursor_page) conn0 ''Walls'' JNull fi0) = Break"
    using fi_iteration_page [of "always empty_cursor_page" fi0 "[wall_element]" "JStr []"
        "''Walls''" _ conn0 JNull] pg fp
    by (simp add: always_def stop_condition_def)
  moreover
  have "snd (cc_iteration (always empty_cursor_page) conn0 walls_row JNull cc0) = Break"
    using cc_iteration_page [of "always empty_cursor_page" cc0 "[wall_element]" "JStr []"
        walls_row _ conn0 JNull] pg cp
    by (simp add: always_def stop_condition_def)
  ultimately show ?thesis
    using pg by (simp add: spec_cursor_def spec_count_def spec_stops_def)
qed

section \<open>Termination of the pagination loops\<close>

lemma fi_iteration_repeat:
  assumes pg: "fetched_page (replies (length (sent s))) = Some (elements, c')" and eq: "py_eq c' c"
  shows "\<not> continues (snd (fi_iteration replies conn category_name c s))"
proof (cases "fi_body category_name c (all_instances s) (replies (length (sent s)))")
  case (Inl e)
  then show ?thesis by (simp add: fi_iteration_def Let_def)
next
  case (Inr p)
  obtain acc' out where p: "p = (acc', out)" by (cases p)
  from fi_body_Inr [OF Inr [unfolded p]] pg eq have "out = Break"
    by (auto simp: stop_condition_def)
  with Inr p show ?thesis by (simp add: fi_iteration_def Let_def)
qed

lemma cc_iteration_repeat:
  assumes pg: "fetched_page (replies (length (sent t))) = Some (elements, c')" and eq: "py_eq c' c"
  shows "\<not> continues (snd (cc_iteration replies conn row c t))"
proof -
  obtain ids out where tr: "cc_try (hex (color row)) c (external_ids_with_colors t)
      (replies (length (sent t))) = (ids, out)"
    by (cases "cc_try (hex (color row)) c (external_ids_with_colors t) (replies (length (sent t)))")
  show ?thesis
  proof (cases out)
    case (Raise e)
    with tr show ?thesis by (simp add: cc_iteration_def Let_def)
  next
    case Break
    with tr show ?thesis by (simp add: cc_iteration_def Let_def)
  next
    case (Continue nc)
    then have "\<forall>e. out \<noteq> Raise e" by simp
    from cc_try_no_raise [OF tr this] pg eq have "out = Break"
      by (auto simp: stop_condition_def)
    with Continue show ?thesis by simp
  qed
qed

lemma loop_ends_after:
  assumes run: "passes n body c0 s = (s', Continue c)" and stop: "\<not> continues (snd (body c s'))"
  shows "paginate body c0 s = Some (fst (body c s'), left_with (snd (body c s')))"
proof -
  have "passes (Suc n) body c0 s = body c s'"
    using run by (simp add: passes_Suc_end del: passes.simps)
  then have "passes (Suc n) body c0 s = (fst (body c s'), snd (body c s'))"
    by simp
  from passes_stop [OF this stop] show ?thesis .
qed

text \<open>
  C3, as the code has it. The guard compares the returned cursor with the cursor of the
  request just sent, and with no other. So a loop ends as soon as a reply returns the
  cursor it was sent: if the loop has come to a pass with the cursor \<open>c\<close> and the reply
  to that pass carries a page with an equal cursor, the loop returns, and that request
  was its last. A cursor that comes again later, after another one, is not noticed.
\<close>

theorem immediate_repeat_terminates:
  "(passes n (fi_iteration replies conn category_name) JNull s = (s', Continue c) \<and>
    fetched_page (replies (length (sent s'))) = Some (elements, c') \<and> py_eq c' c \<longrightarrow>
      (\<exists>r. fi_loop replies conn category_name s = Some r \<and>
           length (sent (fst r)) = Suc (length (sent s'))))
   \<and> (passes n (cc_iteration replies conn row) JNull t = (t', Continue c) \<and>
       fetched_page (replies (length (sent t'))) = Some (elements, c') \<and> py_eq c' c \<longrightarrow>
      (\<exists>r. cc_loop replies conn row t = Some r \<and>
           length (sent (fst r)) = Suc (length (sent t'))))"
proof (intro conjI impI)
  assume h: "passes n (fi_iteration replies conn category_name) JNull s = (s', Continue c) \<and>
    fetched_page (replies (length (sent s'))) = Some (elements, c') \<and> py_eq c' c"
  then have stop: "\<not> continues (snd (fi_iteration replies conn category_name c s'))"
    by (intro fi_iteration_repeat [of replies s' elements c']) simp_all
  from h have run: "passes n (fi_iteration replies conn category_name) JNull s = (s', Continue c)"
    by simp
  from loop_ends_after [OF run stop]
  have "fi_loop replies conn category_name s =
      Some (fst (fi_iteration replies conn category_name c s'),
            left_with (snd (fi_iteration replies conn category_name c s')))"
    by (simp add: fi_loop_def)
  then show "\<exists>r. fi_loop replies conn category_name s = Some r \<and>
           length (sent (fst r)) = Suc (length (sent s'))"
    by (simp add: fi_iteration_sent)
next
  assume h: "passes n (cc_iteration replies conn row) JNull t = (t', Continue c) \<and>
       fetched_page (replies (length (sent t'))) = Some (elements, c') \<and> py_eq c' c"
  then have stop: "\<not> continues (snd (cc_iteration replies conn row c t'))"
    by (intro cc_iteration_repeat [of replies t' elements c']) simp_all
  from h have run: "passes n (cc_iteration replies conn row) JNull t = (t', Continue c)"
    by simp
  from loop_ends_after [OF run stop]
  have "cc_loop replies conn row t =
      Some (fst (cc_iteration replies conn row c t'),
            left_with (snd (cc_iteration replies conn row c t')))"
    by (simp add: cc_loop_def)
  then show "\<exists>r. cc_loop replies conn row t = Some r \<and>
           length (sent (fst r)) = Suc (length (sent t'))"
    by (simp add: cc_iteration_sent)
qed

text \<open>
  An API that returns the cursor \<^verbatim>\<open>"A"\<close> with every page: both loops end with their
  second request.
\<close>

theorem immediate_repeat_terminates_witness:
  "map_option (\<lambda>r. length (sent (fst r))) (fi_loop replies_aa conn0 ''Walls'' fi0) = Some 2
   \<and> map_option (\<lambda>r. length (sent (fst r))) (cc_loop replies_aa conn0 walls_row cc0) = Some 2"
proof -
  let ?s1 = "fi0\<lparr>sent := sent fi0 @ [page_request FamilyInstances conn0 ''Walls'' JNull],
      all_instances := [\<lparr>inst_category = ''Walls'', family_name = JStr ''Basic Wall'',
          type_name = JStr ''Generic 200'', element_name = JStr ''Wall 1''\<rparr>]\<rparr>"
  let ?t1 = "cc0\<lparr>sent := sent cc0 @ [page_request CategoryElements conn0 (category walls_row) JNull],
      external_ids_with_colors := [(JStr ''x1'', ''#00ff00'')]\<rparr>"
  have pg: "\<And>i. fetched_page (replies_aa i) = Some ([wall_element], JStr ''A'')"
    by (simp add: replies_aa_def always_def fetched_page_ok)
  have fi1: "passes (Suc 0) (fi_iteration replies_aa conn0 ''Walls'') JNull fi0 =
      (?s1, Continue (JStr ''A''))"
    using fi_iteration_page [of replies_aa fi0 "[wall_element]" "JStr ''A''" "''Walls''" _ conn0 JNull]
    by (simp add: pg fi0_def fi_element_wall stop_condition_def)
  have cc1: "passes (Suc 0) (cc_iteration replies_aa conn0 walls_row) JNull cc0 =
      (?t1, Continue (JStr ''A''))"
    using cc_iteration_page [of replies_aa cc0 "[wall_element]" "JStr ''A''" walls_row _ conn0 JNull]
    by (simp add: pg cc0_def cc_external_id_wall stop_condition_def walls_row_def)
  have eq: "py_eq (JStr ''A'') (JStr ''A'')" by simp
  note inst = immediate_repeat_terminates
    [where n = "Suc 0" and replies = replies_aa and conn = conn0 and category_name = "''Walls''"
       and s = fi0 and s' = ?s1 and c = "JStr ''A''" and elements = "[wall_element]"
       and c' = "JStr ''A''" and row = walls_row and t = cc0 and t' = ?t1]
  from inst [THEN conjunct1, rule_format, OF conjI [OF fi1 conjI [OF pg eq]]]
  obtain r where "fi_loop replies_aa conn0 ''Walls'' fi0 = Some r"
    "length (sent (fst r)) = Suc (length (sent ?s1))"
    by blast
  then have 1: "map_option (\<lambda>r. length (sent (fst r))) (fi_loop replies_aa conn0 ''Walls'' fi0) = Some 2"
    by (simp add: fi0_def)
  from inst [THEN conjunct2, rule_format, OF conjI [OF cc1 conjI [OF pg eq]]]
  obtain r' where "cc_loop replies_aa conn0 walls_row cc0 = Some r'"
    "length (sent (fst r')) = Suc (length (sent ?t1))"
    by blast
  then have 2: "map_option (\<lambda>r. length (sent (fst r))) (cc_loop replies_aa conn0 walls_row cc0) = Some 2"
    by (simp add: cc0_def)
  from 1 2 show ?thesis by (intro conjI)
qed

text \<open>
  The API that alternates between the cursors \<^verbatim>\<open>"A"\<close> and \<^verbatim>\<open>"B"\<close>: the cursor a reply
  returns is never the one it was sent, so every pass continues.
\<close>

lemma fetched_page_ab:
  "fetched_page (replies_ab i) = Some ([wall_element], JStr (if even i then ''A'' else ''B''))"
  by (simp add: replies_ab_def fetched_page_ok)

lemma fi_ab_pass:
  assumes "\<not> py_eq (JStr (if even (length (sent s)) then ''A'' else ''B'')) c"
  shows "\<exists>s'. fi_iteration replies_ab conn category_name c s =
           (s', Continue (JStr (if even (length (sent s)) then ''A'' else ''B''))) \<and>
         length (sent s') = Suc (length (sent s))"
proof -
  have fp: "fi_page category_name [wall_element] (all_instances s) =
      Inr (all_instances s @ [\<lparr>inst_category = category_name, family_name = JStr ''Basic Wall'',
          type_name = JStr ''Generic 200'', element_name = JStr ''Wall 1''\<rparr>])"
    by (simp add: fi_element_wall)
  from fi_iteration_page [of replies_ab s, OF fetched_page_ab fp, of conn c] assms
  show ?thesis by (simp add: stop_condition_def)
qed

lemma cc_ab_pass:
  assumes "\<not> py_eq (JStr (if even (length (sent t)) then ''A'' else ''B'')) c"
  shows "\<exists>t'. cc_iteration replies_ab conn row c t =
           (t', Continue (JStr (if even (length (sent t)) then ''A'' else ''B''))) \<and>
         length (sent t') = Suc (length (sent t))"
proof -
  have cp: "cc_page (hex (color row)) [wall_element] (external_ids_with_colors t) =
      (external_ids_with_colors t @ [(JStr ''x1'', hex (color row))], None)"
    by (simp add: cc_external_id_wall)
  from cc_iteration_page [of replies_ab t, OF fetched_page_ab cp, of conn c] assms
  show ?thesis by (simp add: stop_condition_def)
qed

lemma fi_ab_passes:
  "\<not> py_eq (JStr (if even (length (sent s)) then ''A'' else ''B'')) c \<Longrightarrow>
   continues (snd (passes n (fi_iteration replies_ab conn category_name) c s))"
proof (induction n arbitrary: c s)
  case 0
  show ?case by simp
next
  case (Suc n)
  from fi_ab_pass [OF Suc.prems, of conn category_name] obtain s' where
    p: "fi_iteration replies_ab conn category_name c s =
          (s', Continue (JStr (if even (length (sent s)) then ''A'' else ''B'')))"
    and l: "length (sent s') = Suc (length (sent s))"
    by blast
  have "\<not> py_eq (JStr (if even (length (sent s')) then ''A'' else ''B''))
      (JStr (if even (length (sent s)) then ''A'' else ''B''))"
    using l by simp
  from Suc.IH [OF this] p show ?case by simp
qed

lemma cc_ab_passes:
  "\<not> py_eq (JStr (if even (length (sent t)) then ''A'' else ''B'')) c \<Longrightarrow>
   continues (snd (passes n (cc_iteration replies_ab conn row) c t))"
proof (induction n arbitrary: c t)
  case 0
  show ?case by simp
next
  case (Suc n)
  from cc_ab_pass [OF Suc.prems, of conn row] obtain t' where
    p: "cc_iteration replies_ab conn row c t =
          (t', Continue (JStr (if even (length (sent t)) then ''A'' else ''B'')))"
    and l: "length (sent t') = Suc (length (sent t))"
    by blast
  have "\<not> py_eq (JStr (if even (length (sent t')) then ''A'' else ''B''))
      (JStr (if even (length (sent t)) then ''A'' else ''B''))"
    using l by simp
  from Suc.IH [OF this] p show ?case by simp
qed

text \<open>
  C3 as it is stated fails at that API: its cursors repeat (the first and the third
  reply return \<^verbatim>\<open>"A"\<close>), and neither loop, and neither view, ever returns.
\<close>

theorem repeated_cursors_counterexample:
  "spec_cursor (replies_ab 0) = Some (JStr ''A'')
   \<and> spec_cursor (replies_ab 1) = Some (JStr ''B'')
   \<and> spec_cursor (replies_ab 2) = Some (JStr ''A'')
   \<and> fi_loop replies_ab conn0 ''Structural Framing'' fi0 = None
   \<and> view_family_instances conn0 replies_ab = None
   \<and> cc_loop replies_ab conn0 walls_row cc0 = None
   \<and> view_colored_categories conn0 replies_ab [walls_row] = None"
proof -
  have fi: "fi_loop replies_ab conn0 ''Structural Framing'' fi0 = None"
    unfolding fi_loop_def
    by (rule paginate_forever, rule fi_ab_passes) simp
  have cc: "cc_loop replies_ab conn0 walls_row cc0 = None"
    unfolding cc_loop_def
    by (rule paginate_forever, rule cc_ab_passes) simp
  from fi have vf: "view_family_instances conn0 replies_ab = None"
    by (simp add: view_family_instances_def categories_def fi0_def)
  from cc have vc: "view_colored_categories conn0 replies_ab [walls_row] = None"
    by (simp add: view_colored_categories_def cc0_def)
  have sc: "spec_cursor (replies_ab 0) = Some (JStr ''A'')"
    "spec_cursor (replies_ab 1) = Some (JStr ''B'')"
    "spec_cursor (replies_ab 2) = Some (JStr ''A'')"
    by (simp_all add: spec_cursor_def fetched_page_ab)
  from sc fi vf cc vc show ?thesis by (intro conjI)
qed

section \<open>The colored category view\<close>

lemma cc_iteration_fails:
  assumes "execute_graphql (replies (length (sent t))) = Inl e"
  shows "cc_iteration replies conn row c t =
      (t\<lparr>sent := sent t @ [page_request CategoryElements conn (category row) c],
         warnings := warnings t @ [(category row, e)]\<rparr>, Break)"
  using assms by (simp add: cc_iteration_def cc_try_def)

lemma cc_loop_never_raises:
  "cc_loop replies conn row t = Some (t', x) \<Longrightarrow> x = None"
proof -
  assume "cc_loop replies conn row t = Some (t', x)"
  then have "paginate (cc_iteration replies conn row) JNull t = Some (t', x)"
    by (simp add: cc_loop_def)
  from paginate_returns [OF this] obtain n s' out where
    p: "passes n (cc_iteration replies conn row) JNull t = (s', out)"
    and nc: "\<not> continues out" and r: "(t', x) = (s', left_with out)"
    by blast
  have "\<And>c u. \<forall>e. snd (passes n (cc_iteration replies conn row) c u) \<noteq> Raise e"
  proof (induction n)
    case 0
    show ?case by simp
  next
    case (Suc n)
    obtain u1 o1 where b: "cc_iteration replies conn row c u = (u1, o1)"
      by (cases "cc_iteration replies conn row c u")
    show ?case
    proof (cases o1)
      case (Continue c1)
      with b Suc.IH [of c1 u1] show ?thesis by simp
    next
      case (Raise e)
      with b cc_iteration_never_raises [of replies conn row c u e] show ?thesis by simp
    next
      case Break
      with b show ?thesis by simp
    qed
  qed
  with p have "\<forall>e. out \<noteq> Raise e" by (metis snd_conv)
  with r show "x = None" by (cases out) simp_all
qed

lemma cc_rows_never_raise:
  "cc_rows replies conn rows t = Some (t', x) \<Longrightarrow> x = None"
proof (induction rows arbitrary: t)
  case Nil
  then show ?case by simp
next
  case (Cons row rows)
  show ?case
  proof (cases "cc_loop replies conn row t")
    case None
    with Cons.prems show ?thesis by simp
  next
    case (Some r)
    obtain t1 x1 where r: "r = (t1, x1)" by (cases r)
    with Some have "x1 = None" using cc_loop_never_raises by simp
    with Some r Cons.prems have "cc_rows replies conn rows t1 = Some (t', x)" by simp
    then show ?thesis by (rule Cons.IH)
  qed
qed

lemma cc_try_prefix:
  "cc_try color_hex cursor acc r = (acc', out) \<Longrightarrow>
   \<exists>new. acc' = acc @ new \<and> (\<forall>p \<in> set new. snd p = color_hex \<and> truthy (fst p))"
proof -
  assume run: "cc_try color_hex cursor acc r = (acc', out)"
  let ?pre = "bind_exn (execute_graphql r) (\<lambda>data.
           bind_exn (page_block data) (\<lambda>block.
           bind_exn (page_elements block) (\<lambda>elements. Inr (block, elements))))"
  show ?thesis
  proof (cases ?pre)
    case (Inl e)
    with run have "acc' = acc" by (simp add: cc_try_def)
    then show ?thesis by simp
  next
    case (Inr be)
    obtain block elements where be: "be = (block, elements)" by (cases be)
    obtain acc1 x where pg: "cc_page color_hex elements acc = (acc1, x)"
      by (cases "cc_page color_hex elements acc")
    from run Inr be pg have "acc' = acc1"
      by (cases x; cases "new_cursor_of block") (simp_all add: cc_try_def)
    with cc_page_prefix [OF pg] show ?thesis by blast
  qed
qed

lemma cc_iteration_prefix:
  "\<exists>new. external_ids_with_colors (fst (cc_iteration replies conn row cursor v)) =
       external_ids_with_colors v @ new \<and>
     (\<forall>p \<in> set new. snd p = hex (color row) \<and> truthy (fst p))"
proof -
  obtain ids out where tr: "cc_try (hex (color row)) cursor (external_ids_with_colors v)
      (replies (length (sent v))) = (ids, out)"
    by (cases "cc_try (hex (color row)) cursor (external_ids_with_colors v)
      (replies (length (sent v)))")
  then have "external_ids_with_colors (fst (cc_iteration replies conn row cursor v)) = ids"
    by (cases out) (simp_all add: cc_iteration_def Let_def)
  with cc_try_prefix [OF tr] show ?thesis by simp
qed

text \<open>
  C9. In \<^verbatim>\<open>view_colored_categories\<close> the loop over the elements of a page only appends,
  and so does every pass of the loop of a row: every entry added pairs the color of the
  row with the external id of an element of the page, and that id is not empty. When the query of a pass fails (whichever pass of
  the row's loop it is), the pass appends a warning with the category and the exception
  and breaks: the loop of that row returns, it has sent no further request, the entries
  collected so far are unchanged, and the loop over the rows goes on with the remaining
  rows from that state. The loops of the view never leave with an exception.
\<close>

theorem colored_view_entries_and_failures:
  "(cc_page color_hex elements acc = (acc', x) \<longrightarrow>
      (\<exists>new. acc' = acc @ new \<and>
         (\<forall>p \<in> set new. snd p = color_hex \<and> truthy (fst p) \<and>
            (\<exists>e \<in> set elements. cc_external_id e = Inr (fst p)))))
   \<and> (\<exists>new. external_ids_with_colors (fst (cc_iteration replies conn row cursor v)) =
          external_ids_with_colors v @ new \<and>
        (\<forall>p \<in> set new. snd p = hex (color row) \<and> truthy (fst p)))
   \<and> (passes n (cc_iteration replies conn row) JNull t = (t', Continue c) \<and>
       execute_graphql (replies (length (sent t'))) = Inl e \<longrightarrow>
        cc_loop replies conn row t =
          Some (t'\<lparr>sent := sent t' @ [page_request CategoryElements conn (category row) c],
                   warnings := warnings t' @ [(category row, e)]\<rparr>, None) \<and>
        cc_rows replies conn (row # rows) t =
          cc_rows replies conn rows
            (t'\<lparr>sent := sent t' @ [page_request CategoryElements conn (category row) c],
                warnings := warnings t' @ [(category row, e)]\<rparr>))
   \<and> (cc_rows replies conn rows t = Some (u, y) \<longrightarrow> y = None)
   \<and> (view_colored_categories conn replies rows = Some (u, y) \<longrightarrow> y = None)"
proof (intro conjI impI)
  assume "cc_page color_hex elements acc = (acc', x)"
  then show "\<exists>new. acc' = acc @ new \<and>
         (\<forall>p \<in> set new. snd p = color_hex \<and> truthy (fst p) \<and>
            (\<exists>e \<in> set elements. cc_external_id e = Inr (fst p)))"
    by (rule cc_page_prefix)
next
  show "\<exists>new. external_ids_with_colors (fst (cc_iteration replies conn row cursor v)) =
          external_ids_with_colors v @ new \<and>
        (\<forall>p \<in> set new. snd p = hex (color row) \<and> truthy (fst p))"
    by (rule cc_iteration_prefix)
next
  assume h: "passes n (cc_iteration replies conn row) JNull t = (t', Continue c) \<and>
       execute_graphql (replies (length (sent t'))) = Inl e"
  let ?t'' = "t'\<lparr>sent := sent t' @ [page_request CategoryElements conn (category row) c],
                   warnings := warnings t' @ [(category row, e)]\<rparr>"
  from h have run: "passes n (cc_iteration replies conn row) JNull t = (t', Continue c)"
    and fail: "execute_graphql (replies (length (sent t'))) = Inl e"
    by simp_all
  from cc_iteration_fails [of replies t', OF fail, of conn row c]
  have it: "cc_iteration replies conn row c t' = (?t'', Break)" .
  then have "\<not> continues (snd (cc_iteration replies conn row c t'))" by simp
  from loop_ends_after [OF run this] it
  show loop: "cc_loop replies conn row t = Some (?t'', None)"
    by (simp add: cc_loop_def)
  then show "cc_rows replies conn (row # rows) t = cc_rows replies conn rows ?t''"
    by simp
next
  assume "cc_rows replies conn rows t = Some (u, y)"
  then show "y = None" by (rule cc_rows_never_raise)
next
  assume "view_colored_categories conn replies rows = Some (u, y)"
  then show "y = None"
    unfolding view_colored_categories_def by (rule cc_rows_never_raise)
qed

text \<open>
  Rows for walls and doors against an API whose second reply is a server error: the wall
  of the first page stays in the list, one warning names the walls, the doors are
  fetched with the third request, and the view returns.
\<close>

theorem colored_view_entries_and_failures_witness:
  "map_option (\<lambda>r. (external_ids_with_colors (fst r), warnings (fst r), length (sent (fst r)), snd r))
     (view_colored_categories conn0 failing_second [walls_row, doors_row]) =
   Some ([(JStr ''x1'', ''#00ff00''), (JStr ''x1'', ''#ff0000'')],
         [(''Walls'', RuntimeError_HTTP 500 ''Internal Server Error'')], 3, None)"
proof -
  let ?t1 = "cc0\<lparr>sent := sent cc0 @ [page_request CategoryElements conn0 (category walls_row) JNull],
      external_ids_with_colors := [(JStr ''x1'', ''#00ff00'')]\<rparr>"
  let ?e = "RuntimeError_HTTP 500 ''Internal Server Error''"
  let ?t2 = "?t1\<lparr>sent := sent ?t1 @
        [page_request CategoryElements conn0 (category walls_row) (JStr ''A'')],
      warnings := warnings ?t1 @ [(category walls_row, ?e)]\<rparr>"
  let ?t3 = "?t2\<lparr>sent := sent ?t2 @ [page_request CategoryElements conn0 (category doors_row) JNull],
      external_ids_with_colors := [(JStr ''x1'', ''#00ff00''), (JStr ''x1'', ''#ff0000'')]\<rparr>"
  have pg0: "fetched_page (failing_second (length (sent cc0))) = Some ([wall_element], JStr ''A'')"
    by (simp add: cc0_def failing_second_def fetched_page_ok)
  have cp0: "cc_page (hex (color walls_row)) [wall_element] (external_ids_with_colors cc0) =
      ([(JStr ''x1'', ''#00ff00'')], None)"
    by (simp add: cc_external_id_wall cc0_def walls_row_def)
  have walls1: "passes (Suc 0) (cc_iteration failing_second conn0 walls_row) JNull cc0 =
      (?t1, Continue (JStr ''A''))"
    using cc_iteration_page [of failing_second cc0, OF pg0 cp0, of conn0 JNull]
    by (simp add: stop_condition_def)
  have fail: "execute_graphql (failing_second (length (sent ?t1))) = Inl ?e"
    by (simp add: cc0_def failing_second_def server_error_def execute_graphql_def)
  note inst = colored_view_entries_and_failures
    [where n = "Suc 0" and replies = failing_second and conn = conn0 and row = walls_row
       and t = cc0 and t' = ?t1 and c = "JStr ''A''" and e = ?e and rows = "[doors_row]"]
  from inst [THEN conjunct2, THEN conjunct2, THEN conjunct1, rule_format,
      OF conjI [OF walls1 fail]]
  have rows: "cc_rows failing_second conn0 [walls_row, doors_row] cc0 =
      cc_rows failing_second conn0 [doors_row] ?t2"
    by simp
  have pg2: "fetched_page (failing_second (length (sent ?t2))) = Some ([wall_element], JNull)"
    by (simp add: cc0_def failing_second_def fetched_page_ok)
  have cp2: "cc_page (hex (color doors_row)) [wall_element] (external_ids_with_colors ?t2) =
      ([(JStr ''x1'', ''#00ff00''), (JStr ''x1'', ''#ff0000'')], None)"
    by (simp add: cc_external_id_wall doors_row_def)
  have "passes (Suc 0) (cc_iteration failing_second conn0 doors_row) JNull ?t2 = (?t3, Break)"
    using cc_iteration_page [of failing_second ?t2, OF pg2 cp2, of conn0 JNull]
    by (simp add: stop_condition_def)
  from passes_stop [OF this]
  have doors: "cc_loop failing_second conn0 doors_row ?t2 = Some (?t3, None)"
    by (simp add: cc_loop_def)
  from rows doors
  have "view_colored_categories conn0 failing_second [walls_row, doors_row] = Some (?t3, None)"
    by (simp add: view_colored_categories_def cc0_def)
  then show ?thesis
    by (simp add: cc0_def walls_row_def)
qed

section \<open>The names of a family instance\<close>

text \<open>
  What the record of an element holds. The family name and the type name are the value
  of the last property of that name, and \<^verbatim>\<open>"Unknown"\<close> when there is no such property or
  its value is empty. The element name is the \<^verbatim>\<open>name\<close> field as it is, and \<^verbatim>\<open>"Unknown"\<close>
  only when the element has no such field.
\<close>

lemma py_eq_Family_Type: "py_eq n (JStr ''Family Name'') \<Longrightarrow> \<not> py_eq n (JStr ''Type Name'')"
  by (cases n) auto

lemma fi_properties_names:
  "fi_properties props names = Inr res \<Longrightarrow>
   fst res = (case last_named ''Family Name'' props of
                   None \<Rightarrow> fst names
                 | Some v \<Rightarrow> if truthy v then v else JStr ''Unknown'') \<and>
   snd res = (case last_named ''Type Name'' props of
                   None \<Rightarrow> snd names
                 | Some v \<Rightarrow> if truthy v then v else JStr ''Unknown'')"
proof (induction props arbitrary: names)
  case Nil
  then show ?case by simp
next
  case (Cons p ps)
  from Cons.prems obtain n v where
    n: "py_get p ''name'' (JStr []) = Inr n" and v: "py_get p ''value'' (JStr []) = Inr v"
    by (auto simp: bind_exn_eq_Inr)
  then have pn: "property_name p = n" "property_value p = v"
    by (simp_all add: property_name_def property_value_def)
  show ?case
  proof (cases "py_eq n (JStr ''Family Name'')")
    case True
    with Cons.prems n v
    have "fi_properties ps (if truthy v then v else JStr ''Unknown'', snd names) = Inr res"
      by simp
    from Cons.IH [OF this] True py_eq_Family_Type [OF True] pn show ?thesis
      by (simp split: option.splits)
  next
    case False
    show ?thesis
    proof (cases "py_eq n (JStr ''Type Name'')")
      case True
      with False Cons.prems n v
      have "fi_properties ps (fst names, if truthy v then v else JStr ''Unknown'') = Inr res"
        by simp
      from Cons.IH [OF this] True False pn show ?thesis
        by (simp split: option.splits)
    next
      case nt: False
      with False Cons.prems n v have "fi_properties ps names = Inr res" by simp
      from Cons.IH [OF this] nt False pn show ?thesis
        by (simp split: option.splits)
    qed
  qed
qed

lemma fi_element_names:
  assumes "fi_element category_name element = Inr inst"
  shows "family_name inst =
           (case last_named ''Family Name'' (properties_of element) of
              None \<Rightarrow> JStr ''Unknown''
            | Some v \<Rightarrow> if truthy v then v else JStr ''Unknown'')"
    and "type_name inst =
           (case last_named ''Type Name'' (properties_of element) of
              None \<Rightarrow> JStr ''Unknown''
            | Some v \<Rightarrow> if truthy v then v else JStr ''Unknown'')"
    and "element_name inst = (case name_field element of None \<Rightarrow> JStr ''Unknown'' | Some v \<Rightarrow> v)"
    and "inst_category inst = category_name"
proof -
  from assms have "\<exists>name. py_get element ''name'' (JStr ''Unknown'') = Inr name \<and>
      (\<exists>p. py_get element ''properties'' (JObj []) = Inr p \<and>
      (\<exists>r. py_get p ''results'' (JArr []) = Inr r \<and>
      (\<exists>props. py_iter (py_or r (JArr [])) = Inr props \<and>
      (\<exists>names. fi_properties props (JStr ''Unknown'', JStr ''Unknown'') = Inr names \<and>
         (Inr \<lparr>inst_category = category_name, family_name = fst names,
               type_name = snd names, element_name = name\<rparr> :: exn + family_instance) = Inr inst))))"
    by (simp only: fi_element_def bind_exn_eq_Inr)
  then obtain name p r props names where
    nm: "py_get element ''name'' (JStr ''Unknown'') = Inr name"
    and p: "py_get element ''properties'' (JObj []) = Inr p"
    and r: "py_get p ''results'' (JArr []) = Inr r"
    and it: "py_iter (py_or r (JArr [])) = Inr props"
    and fp: "fi_properties props (JStr ''Unknown'', JStr ''Unknown'') = Inr names"
    and inst: "\<lparr>inst_category = category_name, family_name = fst names,
               type_name = snd names, element_name = name\<rparr> = inst"
    by (elim exE conjE) (simp only: sum.inject)
  from p r it have props: "properties_of element = props"
    by (simp add: properties_of_def)
  from nm have name: "name = (case name_field element of None \<Rightarrow> JStr ''Unknown'' | Some v \<Rightarrow> v)"
    by (cases element) (auto simp: name_field_def)
  from fi_properties_names [OF fp] have
    "fst names = (case last_named ''Family Name'' props of
                    None \<Rightarrow> JStr ''Unknown''
                  | Some v \<Rightarrow> if truthy v then v else JStr ''Unknown'')"
    "snd names = (case last_named ''Type Name'' props of
                    None \<Rightarrow> JStr ''Unknown''
                  | Some v \<Rightarrow> if truthy v then v else JStr ''Unknown'')"
    by (simp_all split: option.splits)
  with props inst name
  show "family_name inst =
           (case last_named ''Family Name'' (properties_of element) of
              None \<Rightarrow> JStr ''Unknown''
            | Some v \<Rightarrow> if truthy v then v else JStr ''Unknown'')"
    and "type_name inst =
           (case last_named ''Type Name'' (properties_of element) of
              None \<Rightarrow> JStr ''Unknown''
            | Some v \<Rightarrow> if truthy v then v else JStr ''Unknown'')"
    and "element_name inst = (case name_field element of None \<Rightarrow> JStr ''Unknown'' | Some v \<Rightarrow> v)"
    and "inst_category inst = category_name"
    by auto
qed

text \<open>
  C10 at an element whose \<^verbatim>\<open>name\<close> is the empty string and whose \<^verbatim>\<open>Family Name\<close>
  property has an empty value, with no \<^verbatim>\<open>Type Name\<close> property. The family name and the
  type name of the record are \<^verbatim>\<open>"Unknown"\<close>; the element name is the empty string, and
  so it is in the list the loop returns. The default of \<^verbatim>\<open>element.get("name", "Unknown")\<close>
  is used for an element with no \<^verbatim>\<open>name\<close> key only.
\<close>

theorem element_name_not_defaulted:
  "fi_element ''Walls'' unnamed_element =
     Inr \<lparr>inst_category = ''Walls'', family_name = JStr ''Unknown'',
          type_name = JStr ''Unknown'', element_name = JStr []\<rparr>
   \<and> fi_element ''Walls'' (JObj [(''id'', JStr ''e3'')]) =
     Inr \<lparr>inst_category = ''Walls'', family_name = JStr ''Unknown'',
          type_name = JStr ''Unknown'', element_name = JStr ''Unknown''\<rparr>
   \<and> map_option (\<lambda>r. (map element_name (all_instances (fst r)), snd r))
       (fi_loop (always no_id_page) conn0 ''Walls'' fi0) = Some ([JStr []], None)"
proof -
  have 1: "fi_element ''Walls'' unnamed_element =
     Inr \<lparr>inst_category = ''Walls'', family_name = JStr ''Unknown'',
          type_name = JStr ''Unknown'', element_name = JStr []\<rparr>"
    by (simp add: fi_element_def unnamed_element_def py_or_def)
  have 2: "fi_element ''Walls'' (JObj [(''id'', JStr ''e3'')]) =
     Inr \<lparr>inst_category = ''Walls'', family_name = JStr ''Unknown'',
          type_name = JStr ''Unknown'', element_name = JStr ''Unknown''\<rparr>"
    by (simp add: fi_element_def py_or_def)
  have pg: "fetched_page (always no_id_page (length (sent fi0))) = Some ([unnamed_element], JNull)"
    by (simp add: always_def no_id_page_def fetched_page_ok)
  have fp: "fi_page ''Walls'' [unnamed_element] (all_instances fi0) =
      Inr [\<lparr>inst_category = ''Walls'', family_name = JStr ''Unknown'',
          type_name = JStr ''Unknown'', element_name = JStr []\<rparr>]"
    by (simp add: 1 fi0_def)
  from fi_iteration_page [of "always no_id_page" fi0, OF pg fp, of conn0 JNull]
  have "passes (Suc 0) (fi_iteration (always no_id_page) conn0 ''Walls'') JNull fi0 =
      (fi0\<lparr>sent := sent fi0 @ [page_request FamilyInstances conn0 ''Walls'' JNull],
           all_instances := [\<lparr>inst_category = ''Walls'', family_name = JStr ''Unknown'',
          type_name = JStr ''Unknown'', element_name = JStr []\<rparr>]\<rparr>, Break)"
    by (simp add: stop_condition_def)
  from passes_stop [OF this]
  have 3: "map_option (\<lambda>r. (map element_name (all_instances (fst r)), snd r))
       (fi_loop (always no_id_page) conn0 ''Walls'' fi0) = Some ([JStr []], None)"
    by (simp add: fi_loop_def)
  from 1 2 3 show ?thesis by (intro conjI)
qed

end
